theory Spec2Isabelle
  imports Main "HOL-Library.Word"
begin

unbundle bit_operations_syntax

section \<open>Image buffer storage and ownership (imbuf/intern/allocimbuf.cc)\<close>

text \<open>
  A shallow embedding of the allocation code of the image buffer module. Pointers are
  optional addresses (\<open>None\<close> is the null pointer), the memory the code works on is an
  explicit heap, and every operation that the C++ code performs by side effect takes the
  heap and returns the new one. Undefined behaviour of the source (a null or dangling
  dereference, a copy out of bounds, a division by zero, a signed overflow) is a
  \<open>fault\<close> value of the model.
\<close>

subsection \<open>Data model\<close>

type_synonym addr = nat
type_synonym byte = "8 word"

datatype fault =
    NullDereference
  | DanglingPointer
  | OutOfBounds
  | DivisionByZero
  | SignedOverflow
  | OutOfMemory
  | OutOfFuel

datatype ImBufOwnership = IB_DO_NOT_TAKE_OWNERSHIP | IB_TAKE_OWNERSHIP

text \<open>
  The three buffer structs (\<open>ImBufByteBuffer\<close>, \<open>ImBufFloatBuffer\<close>, \<open>ImBufIntBuffer\<close>)
  have the same three fields and differ in the element type of \<open>data\<close> only; memory is
  modelled as bytes, so one record stands for the template parameter \<open>BufferType\<close>.
\<close>

record buffer =
  data :: "addr option"
  ownership :: ImBufOwnership
  implicit_sharing :: "addr option"

text \<open>
  The fields of \<open>ImBuf\<close> that the allocation code reads, writes or frees. The width and
  height are the fields \<open>x\<close> and \<open>y\<close> of the source. Fields that this file only zeroes,
  defaults or copies as plain data (file type, format options, pixel density, colour
  spaces, file path) take part in no memory operation and are left out.
\<close>

record ImBuf =
  dim_x :: "32 word"
  dim_y :: "32 word"
  planes :: "8 word"
  channels :: "32 word"
  flags :: "32 word"
  byte_buffer :: buffer
  float_buffer :: buffer
  z_buffer :: buffer
  float_z_buffer :: buffer
  encoded_buffer :: buffer
  encoded_size :: "32 word"
  encoded_buffer_size :: "32 word"
  mipmap :: "nat \<Rightarrow> addr option"
  miptot :: int
  refcounter :: int
  metadata :: "addr option"
  display_buffer_flags :: "addr option"
  colormanage_cache :: "addr option"
  dds_data :: "addr option"

text \<open>
  The heap: the live memory blocks with their bytes, the live implicit-sharing control
  blocks (user count and the block they own), the live \<open>ImBuf\<close> structs, and the live
  objects of the collaborators (metadata, colour management caches, payloads of the
  compressed-texture loader). \<open>requests\<close> counts the allocation requests made so far and
  is the address the next one returns; \<open>alloc_ok n\<close> tells whether request number \<open>n\<close>
  is granted, so that a theorem about every \<open>alloc_ok\<close> is a theorem about every
  behaviour of the allocator.
\<close>

record heap =
  blocks :: "addr \<Rightarrow> byte list option"
  sharing :: "addr \<Rightarrow> (nat \<times> addr) option"
  ibufs :: "addr \<Rightarrow> ImBuf option"
  externals :: "addr set"
  requests :: nat
  alloc_ok :: "nat \<Rightarrow> bool"

definition and_then :: "fault + 'a \<Rightarrow> ('a \<Rightarrow> fault + 'b) \<Rightarrow> fault + 'b" where
  "and_then r f = (case r of Inl e \<Rightarrow> Inl e | Inr v \<Rightarrow> f v)"

definition load :: "addr \<Rightarrow> heap \<Rightarrow> fault + ImBuf" where
  "load a h = (case ibufs h a of None \<Rightarrow> Inl DanglingPointer | Some ib \<Rightarrow> Inr ib)"

definition store :: "addr \<Rightarrow> ImBuf \<Rightarrow> heap \<Rightarrow> heap" where
  "store a ib h = h\<lparr>ibufs := (ibufs h)(a \<mapsto> ib)\<rparr>"

definition modify :: "addr \<Rightarrow> (ImBuf \<Rightarrow> ImBuf) \<Rightarrow> heap \<Rightarrow> fault + heap" where
  "modify a f h = and_then (load a h) (\<lambda>ib. Inr (store a (f ib) h))"

subsection \<open>Constants of IMB_imbuf_types.h\<close>

text \<open>
  Modelled from the spec: the header that declares the flag bits and the number of
  mipmap levels is not under src/. The spec names one flag per slot; the values are
  those of the header, and the proofs use only that they are five distinct bits.
\<close>

definition IB_rect :: "32 word" where "IB_rect = 1"
definition IB_zbuf :: "32 word" where "IB_zbuf = 8"
definition IB_mem :: "32 word" where "IB_mem = 16"
definition IB_rectfloat :: "32 word" where "IB_rectfloat = 32"
definition IB_zbuffloat :: "32 word" where "IB_zbuffloat = 64"

definition IMB_MIPMAP_LEVELS :: nat where "IMB_MIPMAP_LEVELS = 20"

definition SIZE_MAX :: nat where "SIZE_MAX = 2 ^ 64 - 1"

definition INT_MAX :: int where "INT_MAX = 2 ^ 31 - 1"

subsection \<open>The allocator and the implicit-sharing library\<close>

text \<open>
  Modelled from the spec: MEM_guardedalloc.h and BLI_implicit_sharing.hh are not under
  src/. \<open>MEM_callocN\<close> returns zero-initialised memory of the requested size or null;
  \<open>MEM_freeN\<close> deallocates; \<open>MEM_dupallocN\<close> duplicates a block into a fresh allocation.
  The spec gives MakeWritable no failure result and \<open>imb_make_writeable_buffer\<close> has no
  branch for a null duplicate, so a refused duplication is a fault. A shared control
  block frees the memory it owns when its last user is removed.
\<close>

definition MEM_callocN :: "nat \<Rightarrow> heap \<Rightarrow> addr option \<times> heap" where
  "MEM_callocN len h =
     (if alloc_ok h (requests h)
      then (Some (requests h),
            h\<lparr>blocks := (blocks h)(requests h \<mapsto> replicate len 0),
              requests := Suc (requests h)\<rparr>)
      else (None, h\<lparr>requests := Suc (requests h)\<rparr>))"

definition MEM_freeN :: "addr \<Rightarrow> heap \<Rightarrow> heap" where
  "MEM_freeN a h = h\<lparr>blocks := (blocks h)(a := None)\<rparr>"

definition MEM_dupallocN :: "addr \<Rightarrow> heap \<Rightarrow> fault + addr \<times> heap" where
  "MEM_dupallocN a h =
     (case blocks h a of
        None \<Rightarrow> Inl DanglingPointer
      | Some bs \<Rightarrow>
          if alloc_ok h (requests h)
          then Inr (requests h,
                    h\<lparr>blocks := (blocks h)(requests h \<mapsto> bs),
                      requests := Suc (requests h)\<rparr>)
          else Inl OutOfMemory)"

definition memcpy :: "addr option \<Rightarrow> addr option \<Rightarrow> nat \<Rightarrow> heap \<Rightarrow> fault + heap" where
  "memcpy dst src n h =
     (case dst of
        None \<Rightarrow> Inl NullDereference
      | Some d \<Rightarrow>
          (case src of
             None \<Rightarrow> Inl NullDereference
           | Some s \<Rightarrow>
               (case blocks h d of
                  None \<Rightarrow> Inl DanglingPointer
                | Some db \<Rightarrow>
                    (case blocks h s of
                       None \<Rightarrow> Inl DanglingPointer
                     | Some sb \<Rightarrow>
                         if n \<le> length db \<and> n \<le> length sb
                         then Inr (h\<lparr>blocks := (blocks h)(d \<mapsto> take n sb @ drop n db)\<rparr>)
                         else Inl OutOfBounds))))"

definition remove_user_and_delete_if_last :: "addr \<Rightarrow> heap \<Rightarrow> heap" where
  "remove_user_and_delete_if_last s h =
     (case sharing h s of
        None \<Rightarrow> h
      | Some (n, d) \<Rightarrow>
          if n \<le> 1
          then h\<lparr>blocks := (blocks h)(d := None), sharing := (sharing h)(s := None)\<rparr>
          else h\<lparr>sharing := (sharing h)(s \<mapsto> (n - 1, d))\<rparr>)"

definition add_user :: "addr \<Rightarrow> heap \<Rightarrow> heap" where
  "add_user s h =
     (case sharing h s of
        None \<Rightarrow> h
      | Some (n, d) \<Rightarrow> h\<lparr>sharing := (sharing h)(s \<mapsto> (Suc n, d))\<rparr>)"

subsection \<open>Buffer slots\<close>

definition imb_free_buffer :: "buffer \<Rightarrow> heap \<Rightarrow> buffer \<times> heap" where
  "imb_free_buffer b h =
     (\<lparr>data = None, ownership = IB_DO_NOT_TAKE_OWNERSHIP, implicit_sharing = None\<rparr>,
      (case implicit_sharing b of
         Some s \<Rightarrow> remove_user_and_delete_if_last s h
       | None \<Rightarrow>
           (case data b of
              None \<Rightarrow> h
            | Some d \<Rightarrow>
                (case ownership b of
                   IB_DO_NOT_TAKE_OWNERSHIP \<Rightarrow> h
                 | IB_TAKE_OWNERSHIP \<Rightarrow> MEM_freeN d h))))"

text \<open>
  \<open>imb_alloc_pixels\<close>: \<open>x\<close>, \<open>y\<close> and \<open>channels\<close> are \<open>uint\<close>, \<open>typesize\<close> is \<open>size_t\<close>
  (64 bits). The products are written on naturals with the wrap-around of the C types:
  \<open>uint64_t(x) * uint64_t(y)\<close> and the \<open>size_t\<close> products wrap at \<open>2 ^ 64\<close>.
\<close>

definition imb_alloc_pixels ::
  "32 word \<Rightarrow> 32 word \<Rightarrow> 32 word \<Rightarrow> 64 word \<Rightarrow> heap \<Rightarrow> fault + addr option \<times> heap" where
  "imb_alloc_pixels x y chans typesize h =
     (let divisor = (unat chans * unat typesize) mod 2 ^ 64 in
      if divisor = 0 then Inl DivisionByZero
      else if \<not> ((unat x * unat y) mod 2 ^ 64 < SIZE_MAX div divisor) then Inr (None, h)
      else Inr (MEM_callocN ((unat x * unat y * unat chans * unat typesize) mod 2 ^ 64) h))"

definition imb_alloc_buffer ::
  "buffer \<Rightarrow> 32 word \<Rightarrow> 32 word \<Rightarrow> 32 word \<Rightarrow> 64 word \<Rightarrow> heap
     \<Rightarrow> fault + bool \<times> buffer \<times> heap" where
  "imb_alloc_buffer b x y chans type_size h =
     and_then (imb_alloc_pixels x y chans type_size h) (\<lambda>(p, h').
       if p = None then Inr (False, b\<lparr>data := p\<rparr>, h')
       else Inr (True,
                 b\<lparr>data := p, ownership := IB_TAKE_OWNERSHIP, implicit_sharing := None\<rparr>,
                 h'))"

definition imb_make_writeable_buffer :: "buffer \<Rightarrow> heap \<Rightarrow> fault + buffer \<times> heap" where
  "imb_make_writeable_buffer b h =
     (case data b of
        None \<Rightarrow> Inr (b, h)
      | Some d \<Rightarrow>
          (case ownership b of
             IB_DO_NOT_TAKE_OWNERSHIP \<Rightarrow>
               and_then (MEM_dupallocN d h) (\<lambda>(d', h1).
                 let b1 = b\<lparr>data := Some d', ownership := IB_TAKE_OWNERSHIP\<rparr> in
                 (case implicit_sharing b1 of
                    Some s \<Rightarrow>
                      Inr (b1\<lparr>implicit_sharing := None\<rparr>, remove_user_and_delete_if_last s h1)
                  | None \<Rightarrow> Inr (b1, h1)))
           | IB_TAKE_OWNERSHIP \<Rightarrow> Inr (b, h)))"

text \<open>
  \<open>BLI_assert\<close> compiles to nothing in a release build: stealing from a slot that does
  not own its data returns null and leaves the slot as it is.
\<close>

definition imb_steal_buffer_data :: "buffer \<Rightarrow> addr option \<times> buffer" where
  "imb_steal_buffer_data b =
     (case data b of
        None \<Rightarrow> (None, b)
      | Some d \<Rightarrow>
          (case ownership b of
             IB_DO_NOT_TAKE_OWNERSHIP \<Rightarrow> (None, b)
           | IB_TAKE_OWNERSHIP \<Rightarrow>
               (Some d, b\<lparr>data := None, ownership := IB_DO_NOT_TAKE_OWNERSHIP\<rparr>)))"

definition imb_assign_shared_buffer ::
  "buffer \<Rightarrow> addr option \<Rightarrow> addr option \<Rightarrow> heap \<Rightarrow> buffer \<times> heap" where
  "imb_assign_shared_buffer b buffer_data sharing_info h =
     (case imb_free_buffer b h of (b0, h0) \<Rightarrow>
        (case sharing_info of
           Some s \<Rightarrow>
             (b0\<lparr>data := buffer_data, implicit_sharing := Some s,
                 ownership := IB_DO_NOT_TAKE_OWNERSHIP\<rparr>,
              add_user s h0)
         | None \<Rightarrow>
             (b0\<lparr>data := None, implicit_sharing := None,
                 ownership := IB_DO_NOT_TAKE_OWNERSHIP\<rparr>,
              h0)))"

subsection \<open>Slots of an image buffer\<close>

text \<open>
  The source passes a slot to the templates by reference (\<open>ibuf->byte_buffer\<close>). A value
  of \<open>slot\<close> names the field; the three functions below run a slot operation on that
  field of the struct at an address and write the slot back.
\<close>

datatype slot = ByteBuffer | FloatBuffer | ZBuffer | FloatZBuffer | EncodedBuffer

fun slot_of :: "slot \<Rightarrow> ImBuf \<Rightarrow> buffer" where
  "slot_of ByteBuffer ib = byte_buffer ib"
| "slot_of FloatBuffer ib = float_buffer ib"
| "slot_of ZBuffer ib = z_buffer ib"
| "slot_of FloatZBuffer ib = float_z_buffer ib"
| "slot_of EncodedBuffer ib = encoded_buffer ib"

fun slot_update :: "slot \<Rightarrow> buffer \<Rightarrow> ImBuf \<Rightarrow> ImBuf" where
  "slot_update ByteBuffer b ib = ib\<lparr>byte_buffer := b\<rparr>"
| "slot_update FloatBuffer b ib = ib\<lparr>float_buffer := b\<rparr>"
| "slot_update ZBuffer b ib = ib\<lparr>z_buffer := b\<rparr>"
| "slot_update FloatZBuffer b ib = ib\<lparr>float_z_buffer := b\<rparr>"
| "slot_update EncodedBuffer b ib = ib\<lparr>encoded_buffer := b\<rparr>"

fun slot_flag :: "slot \<Rightarrow> 32 word" where
  "slot_flag ByteBuffer = IB_rect"
| "slot_flag FloatBuffer = IB_rectfloat"
| "slot_flag ZBuffer = IB_zbuf"
| "slot_flag FloatZBuffer = IB_zbuffloat"
| "slot_flag EncodedBuffer = IB_mem"

definition nonnull :: "addr option \<Rightarrow> fault + addr" where
  "nonnull p = (case p of None \<Rightarrow> Inl NullDereference | Some a \<Rightarrow> Inr a)"

definition free_slot :: "slot \<Rightarrow> addr \<Rightarrow> heap \<Rightarrow> fault + heap" where
  "free_slot sl a h =
     and_then (load a h) (\<lambda>ib.
       case imb_free_buffer (slot_of sl ib) h of (b, h1) \<Rightarrow>
         Inr (store a (slot_update sl b ib) h1))"

definition alloc_slot ::
  "slot \<Rightarrow> addr \<Rightarrow> 32 word \<Rightarrow> 32 word \<Rightarrow> 32 word \<Rightarrow> 64 word \<Rightarrow> heap \<Rightarrow> fault + bool \<times> heap" where
  "alloc_slot sl a x y chans type_size h =
     and_then (load a h) (\<lambda>ib.
       and_then (imb_alloc_buffer (slot_of sl ib) x y chans type_size h) (\<lambda>(ok, b, h1).
         Inr (ok, store a (slot_update sl b ib) h1)))"

definition clear_flag :: "32 word \<Rightarrow> addr \<Rightarrow> heap \<Rightarrow> fault + heap" where
  "clear_flag f a h = modify a (\<lambda>ib. ib\<lparr>flags := flags ib AND NOT f\<rparr>) h"

definition set_flag :: "32 word \<Rightarrow> addr \<Rightarrow> heap \<Rightarrow> fault + heap" where
  "set_flag f a h = modify a (\<lambda>ib. ib\<lparr>flags := flags ib OR f\<rparr>) h"

subsection \<open>Freeing\<close>

text \<open>
  \<open>imb_freemipmapImBuf\<close> calls \<open>IMB_freeImBuf\<close> on every level, and \<open>IMB_freeImBuf\<close>
  reaches \<open>imb_freemipmapImBuf\<close> through the functions that free the pixel slots. The
  functions before \<open>IMB_freeImBuf\<close> take that recursive call as the parameter
  \<open>free_child\<close>; \<open>IMB_freeImBuf\<close> closes the recursion with a bound on its depth.
\<close>

fun imb_freemipmapImBuf_loop ::
  "(addr option \<Rightarrow> heap \<Rightarrow> fault + heap) \<Rightarrow> addr \<Rightarrow> nat list \<Rightarrow> heap \<Rightarrow> fault + heap" where
  "imb_freemipmapImBuf_loop free_child a [] h = Inr h"
| "imb_freemipmapImBuf_loop free_child a (l # ls) h =
     (case load a h of
        Inl e \<Rightarrow> Inl e
      | Inr ib \<Rightarrow>
          (case mipmap ib l of
             None \<Rightarrow> imb_freemipmapImBuf_loop free_child a ls h
           | Some c \<Rightarrow>
               (case free_child (Some c) h of
                  Inl e \<Rightarrow> Inl e
                | Inr h1 \<Rightarrow>
                    (case modify a (\<lambda>ib1. ib1\<lparr>mipmap := (mipmap ib1)(l := None)\<rparr>) h1 of
                       Inl e \<Rightarrow> Inl e
                     | Inr h2 \<Rightarrow> imb_freemipmapImBuf_loop free_child a ls h2))))"

definition imb_freemipmapImBuf ::
  "(addr option \<Rightarrow> heap \<Rightarrow> fault + heap) \<Rightarrow> addr option \<Rightarrow> heap \<Rightarrow> fault + heap" where
  "imb_freemipmapImBuf free_child ibuf h =
     and_then (nonnull ibuf) (\<lambda>a.
       and_then (imb_freemipmapImBuf_loop free_child a [0..<IMB_MIPMAP_LEVELS] h) (\<lambda>h1.
         modify a (\<lambda>ib. ib\<lparr>miptot := 0\<rparr>) h1))"

definition imb_freerectfloatImBuf ::
  "(addr option \<Rightarrow> heap \<Rightarrow> fault + heap) \<Rightarrow> addr option \<Rightarrow> heap \<Rightarrow> fault + heap" where
  "imb_freerectfloatImBuf free_child ibuf h =
     (case ibuf of
        None \<Rightarrow> Inr h
      | Some a \<Rightarrow>
          and_then (free_slot FloatBuffer a h) (\<lambda>h1.
            and_then (imb_freemipmapImBuf free_child ibuf h1) (\<lambda>h2.
              clear_flag IB_rectfloat a h2)))"

definition imb_freerectImBuf ::
  "(addr option \<Rightarrow> heap \<Rightarrow> fault + heap) \<Rightarrow> addr option \<Rightarrow> heap \<Rightarrow> fault + heap" where
  "imb_freerectImBuf free_child ibuf h =
     (case ibuf of
        None \<Rightarrow> Inr h
      | Some a \<Rightarrow>
          and_then (free_slot ByteBuffer a h) (\<lambda>h1.
            and_then (imb_freemipmapImBuf free_child ibuf h1) (\<lambda>h2.
              clear_flag IB_rect a h2)))"

definition freeencodedbufferImBuf :: "addr option \<Rightarrow> heap \<Rightarrow> fault + heap" where
  "freeencodedbufferImBuf ibuf h =
     (case ibuf of
        None \<Rightarrow> Inr h
      | Some a \<Rightarrow>
          and_then (free_slot EncodedBuffer a h) (\<lambda>h1.
            modify a (\<lambda>ib. ib\<lparr>encoded_buffer_size := 0, encoded_size := 0,
                               flags := flags ib AND NOT IB_mem\<rparr>) h1))"

definition IMB_freezbufImBuf :: "addr option \<Rightarrow> heap \<Rightarrow> fault + heap" where
  "IMB_freezbufImBuf ibuf h =
     (case ibuf of
        None \<Rightarrow> Inr h
      | Some a \<Rightarrow> and_then (free_slot ZBuffer a h) (\<lambda>h1. clear_flag IB_zbuf a h1))"

definition IMB_freezbuffloatImBuf :: "addr option \<Rightarrow> heap \<Rightarrow> fault + heap" where
  "IMB_freezbuffloatImBuf ibuf h =
     (case ibuf of
        None \<Rightarrow> Inr h
      | Some a \<Rightarrow> and_then (free_slot FloatZBuffer a h) (\<lambda>h1. clear_flag IB_zbuffloat a h1))"

definition imb_freerectImbuf_all ::
  "(addr option \<Rightarrow> heap \<Rightarrow> fault + heap) \<Rightarrow> addr option \<Rightarrow> heap \<Rightarrow> fault + heap" where
  "imb_freerectImbuf_all free_child ibuf h =
     and_then (imb_freerectImBuf free_child ibuf h) (\<lambda>h1.
       and_then (imb_freerectfloatImBuf free_child ibuf h1) (\<lambda>h2.
         and_then (IMB_freezbufImBuf ibuf h2) (\<lambda>h3.
           and_then (IMB_freezbuffloatImBuf ibuf h3) (\<lambda>h4.
             freeencodedbufferImBuf ibuf h4))))"

text \<open>
  Modelled from the spec: the collaborators of the release path are not under src/.
  \<open>IMB_metadata_free\<close> frees the metadata it is given, \<open>colormanage_cache_free\<close> frees
  the colour management cache of the buffer (with its display buffer flags) and clears
  the two pointers, and \<open>free\<close> of the C library releases the payload of the
  compressed-texture loader. \<open>MEM_freeN\<close> on the struct itself ends its life.
\<close>

definition IMB_metadata_free :: "addr option \<Rightarrow> heap \<Rightarrow> heap" where
  "IMB_metadata_free m h = h\<lparr>externals := externals h - set_option m\<rparr>"

definition colormanage_cache_free :: "addr \<Rightarrow> heap \<Rightarrow> fault + heap" where
  "colormanage_cache_free a h =
     and_then (load a h) (\<lambda>ib.
       Inr (store a (ib\<lparr>display_buffer_flags := None, colormanage_cache := None\<rparr>)
              (h\<lparr>externals := externals h
                    - (set_option (display_buffer_flags ib) \<union> set_option (colormanage_cache ib))\<rparr>)))"

definition free_dds :: "addr \<Rightarrow> heap \<Rightarrow> heap" where
  "free_dds d h = h\<lparr>externals := externals h - {d}\<rparr>"

definition MEM_freeN_ImBuf :: "addr \<Rightarrow> heap \<Rightarrow> heap" where
  "MEM_freeN_ImBuf a h = h\<lparr>ibufs := (ibufs h)(a := None)\<rparr>"

text \<open>
  One call of \<open>IMB_freeImBuf\<close>. The spin lock around the counter has no effect in a
  sequential run; the assertion on the file path compiles to nothing.
\<close>

definition IMB_freeImBuf_body ::
  "(addr option \<Rightarrow> heap \<Rightarrow> fault + heap) \<Rightarrow> addr option \<Rightarrow> heap \<Rightarrow> fault + heap" where
  "IMB_freeImBuf_body free_child ibuf h =
     (case ibuf of
        None \<Rightarrow> Inr h
      | Some a \<Rightarrow>
          and_then (load a h) (\<lambda>ib.
            if refcounter ib > 0
            then Inr (store a (ib\<lparr>refcounter := refcounter ib - 1\<rparr>) h)
            else
              and_then (imb_freerectImbuf_all free_child ibuf h) (\<lambda>h1.
                and_then (load a h1) (\<lambda>ib1.
                  and_then (colormanage_cache_free a (IMB_metadata_free (metadata ib1) h1)) (\<lambda>h2.
                    and_then (load a h2) (\<lambda>ib2.
                      Inr (MEM_freeN_ImBuf a
                             (case dds_data ib2 of
                                None \<Rightarrow> h2
                              | Some d \<Rightarrow> free_dds d h2))))))))"

text \<open>
  \<open>IMB_freeImBuf fuel\<close> follows mipmap levels to depth \<open>fuel\<close>; a chain of levels that is
  deeper (or cyclic) ends in \<open>OutOfFuel\<close>.
\<close>

fun IMB_freeImBuf :: "nat \<Rightarrow> addr option \<Rightarrow> heap \<Rightarrow> fault + heap" where
  "IMB_freeImBuf 0 ibuf h = IMB_freeImBuf_body (\<lambda>c h'. Inl OutOfFuel) ibuf h"
| "IMB_freeImBuf (Suc fuel) ibuf h = IMB_freeImBuf_body (IMB_freeImBuf fuel) ibuf h"

definition IMB_refImBuf :: "addr option \<Rightarrow> heap \<Rightarrow> fault + heap" where
  "IMB_refImBuf ibuf h =
     and_then (nonnull ibuf) (\<lambda>a.
       and_then (load a h) (\<lambda>ib.
         if refcounter ib = INT_MAX then Inl SignedOverflow
         else Inr (store a (ib\<lparr>refcounter := refcounter ib + 1\<rparr>) h)))"

subsection \<open>Allocating slots\<close>

definition addzbufImBuf :: "addr option \<Rightarrow> heap \<Rightarrow> fault + bool \<times> heap" where
  "addzbufImBuf ibuf h =
     (case ibuf of
        None \<Rightarrow> Inr (False, h)
      | Some a \<Rightarrow>
          and_then (IMB_freezbufImBuf ibuf h) (\<lambda>h1.
            and_then (load a h1) (\<lambda>ib.
              and_then (alloc_slot ZBuffer a (dim_x ib) (dim_y ib) 1 4 h1) (\<lambda>(ok, h2).
                if \<not> ok then Inr (False, h2)
                else and_then (set_flag IB_zbuf a h2) (\<lambda>h3. Inr (False, h3))))))"

definition addzbuffloatImBuf :: "addr option \<Rightarrow> heap \<Rightarrow> fault + bool \<times> heap" where
  "addzbuffloatImBuf ibuf h =
     (case ibuf of
        None \<Rightarrow> Inr (False, h)
      | Some a \<Rightarrow>
          and_then (IMB_freezbuffloatImBuf ibuf h) (\<lambda>h1.
            and_then (load a h1) (\<lambda>ib.
              and_then (alloc_slot FloatZBuffer a (dim_x ib) (dim_y ib) 1 4 h1) (\<lambda>(ok, h2).
                if \<not> ok then Inr (False, h2)
                else and_then (set_flag IB_zbuffloat a h2) (\<lambda>h3. Inr (True, h3))))))"

definition imb_addencodedbufferImBuf :: "addr option \<Rightarrow> heap \<Rightarrow> fault + bool \<times> heap" where
  "imb_addencodedbufferImBuf ibuf h =
     (case ibuf of
        None \<Rightarrow> Inr (False, h)
      | Some a \<Rightarrow>
          and_then (freeencodedbufferImBuf ibuf h) (\<lambda>h1.
            and_then (modify a (\<lambda>ib.
                (if encoded_buffer_size ib = 0 then ib\<lparr>encoded_buffer_size := 10000\<rparr> else ib)
                  \<lparr>encoded_size := 0\<rparr>) h1) (\<lambda>h2.
              and_then (load a h2) (\<lambda>ib.
                and_then (alloc_slot EncodedBuffer a (encoded_buffer_size ib) 1 1 1 h2) (\<lambda>(ok, h3).
                  if \<not> ok then Inr (False, h3)
                  else and_then (set_flag IB_mem a h3) (\<lambda>h4. Inr (True, h4)))))))"

text \<open>
  \<open>new_buffer\<close> is a local variable without initialiser; \<open>imb_alloc_buffer\<close> writes its
  data pointer in every case and the other two fields on success, and the failure path
  drops it, so its first value is never read. \<open>newsize\<close> is \<open>uint\<close>: the doubling wraps
  at \<open>2 ^ 32\<close>. The \<open>printf\<close> of the parameter check has no effect on the heap.
\<close>

definition imb_enlargeencodedbufferImBuf :: "addr option \<Rightarrow> heap \<Rightarrow> fault + bool \<times> heap" where
  "imb_enlargeencodedbufferImBuf ibuf h =
     (case ibuf of
        None \<Rightarrow> Inr (False, h)
      | Some a \<Rightarrow>
          and_then (load a h) (\<lambda>ib.
            if encoded_buffer_size ib < encoded_size ib then Inr (False, h)
            else
              let doubled = 2 * encoded_buffer_size ib;
                  newsize = (if doubled < 10000 then 10000 else doubled)
              in
              and_then (imb_alloc_buffer
                  \<lparr>data = None, ownership = IB_DO_NOT_TAKE_OWNERSHIP, implicit_sharing = None\<rparr>
                  newsize 1 1 1 h) (\<lambda>(ok, new_buffer, h1).
                if \<not> ok then Inr (False, h1)
                else
                  and_then (load a h1) (\<lambda>ib1.
                    and_then
                      (if data (encoded_buffer ib1) \<noteq> None
                       then memcpy (data new_buffer) (data (encoded_buffer ib1))
                              (unat (encoded_size ib1)) h1
                       else modify a (\<lambda>ib2. ib2\<lparr>encoded_size := 0\<rparr>) h1) (\<lambda>h2.
                      and_then (free_slot EncodedBuffer a h2) (\<lambda>h3.
                        and_then (modify a (\<lambda>ib3.
                            ib3\<lparr>encoded_buffer := new_buffer, encoded_buffer_size := newsize,
                                flags := flags ib3 OR IB_mem\<rparr>) h3) (\<lambda>h4.
                          Inr (True, h4))))))))"

definition imb_addrectfloatImBuf ::
  "nat \<Rightarrow> addr option \<Rightarrow> 32 word \<Rightarrow> heap \<Rightarrow> fault + bool \<times> heap" where
  "imb_addrectfloatImBuf fuel ibuf chans h =
     (case ibuf of
        None \<Rightarrow> Inr (False, h)
      | Some a \<Rightarrow>
          and_then (load a h) (\<lambda>ib.
            and_then
              (if data (float_buffer ib) \<noteq> None
               then imb_freerectfloatImBuf (IMB_freeImBuf fuel) ibuf h
               else Inr h) (\<lambda>h1.
              and_then (load a h1) (\<lambda>ib1.
                and_then (alloc_slot FloatBuffer a (dim_x ib1) (dim_y ib1) chans 4 h1) (\<lambda>(ok, h2).
                  if \<not> ok then Inr (False, h2)
                  else
                    and_then (modify a (\<lambda>ib2.
                        ib2\<lparr>channels := chans, flags := flags ib2 OR IB_rectfloat\<rparr>) h2) (\<lambda>h3.
                      Inr (True, h3)))))))"

definition imb_addrectImBuf :: "addr option \<Rightarrow> heap \<Rightarrow> fault + bool \<times> heap" where
  "imb_addrectImBuf ibuf h =
     (case ibuf of
        None \<Rightarrow> Inr (False, h)
      | Some a \<Rightarrow>
          and_then (free_slot ByteBuffer a h) (\<lambda>h1.
            and_then (load a h1) (\<lambda>ib.
              and_then (alloc_slot ByteBuffer a (dim_x ib) (dim_y ib) 4 1 h1) (\<lambda>(ok, h2).
                if \<not> ok then Inr (False, h2)
                else
                  and_then (set_flag IB_rect a h2) (\<lambda>h3.
                    and_then (load a h3) (\<lambda>ib3.
                      if unat (planes ib3) > 32 then addzbufImBuf ibuf h3
                      else Inr (True, h3)))))))"

subsection \<open>Stealing, making writable, assigning\<close>

definition steal_slot :: "slot \<Rightarrow> addr \<Rightarrow> heap \<Rightarrow> fault + addr option \<times> heap" where
  "steal_slot sl a h =
     and_then (load a h) (\<lambda>ib.
       case imb_steal_buffer_data (slot_of sl ib) of (d, b) \<Rightarrow>
         Inr (d, store a (slot_update sl b ib) h))"

definition IMB_steal_byte_buffer :: "addr option \<Rightarrow> heap \<Rightarrow> fault + addr option \<times> heap" where
  "IMB_steal_byte_buffer ibuf h =
     and_then (nonnull ibuf) (\<lambda>a.
       and_then (steal_slot ByteBuffer a h) (\<lambda>(d, h1).
         and_then (clear_flag IB_rect a h1) (\<lambda>h2. Inr (d, h2))))"

definition IMB_steal_float_buffer :: "addr option \<Rightarrow> heap \<Rightarrow> fault + addr option \<times> heap" where
  "IMB_steal_float_buffer ibuf h =
     and_then (nonnull ibuf) (\<lambda>a.
       and_then (steal_slot FloatBuffer a h) (\<lambda>(d, h1).
         and_then (clear_flag IB_rectfloat a h1) (\<lambda>h2. Inr (d, h2))))"

definition IMB_steal_encoded_buffer :: "addr option \<Rightarrow> heap \<Rightarrow> fault + addr option \<times> heap" where
  "IMB_steal_encoded_buffer ibuf h =
     and_then (nonnull ibuf) (\<lambda>a.
       and_then (steal_slot EncodedBuffer a h) (\<lambda>(d, h1).
         and_then (modify a (\<lambda>ib. ib\<lparr>encoded_size := 0, encoded_buffer_size := 0,
                                      flags := flags ib AND NOT IB_mem\<rparr>) h1) (\<lambda>h2.
           Inr (d, h2))))"

definition make_writeable_slot :: "slot \<Rightarrow> addr option \<Rightarrow> heap \<Rightarrow> fault + heap" where
  "make_writeable_slot sl ibuf h =
     and_then (nonnull ibuf) (\<lambda>a.
       and_then (load a h) (\<lambda>ib.
         and_then (imb_make_writeable_buffer (slot_of sl ib) h) (\<lambda>(b, h1).
           Inr (store a (slot_update sl b ib) h1))))"

definition IMB_make_writable_byte_buffer :: "addr option \<Rightarrow> heap \<Rightarrow> fault + heap" where
  "IMB_make_writable_byte_buffer ibuf h = make_writeable_slot ByteBuffer ibuf h"

definition IMB_make_writable_float_buffer :: "addr option \<Rightarrow> heap \<Rightarrow> fault + heap" where
  "IMB_make_writable_float_buffer ibuf h = make_writeable_slot FloatBuffer ibuf h"

text \<open>
  The three \<open>IMB_assign_shared_*_buffer\<close> functions have one body up to the slot and its
  flag, and so have the four \<open>IMB_assign_*_buffer\<close> functions.
\<close>

definition assign_shared_slot ::
  "slot \<Rightarrow> addr option \<Rightarrow> addr option \<Rightarrow> addr option \<Rightarrow> heap \<Rightarrow> fault + heap" where
  "assign_shared_slot sl ibuf buffer_data sharing_info h =
     and_then (nonnull ibuf) (\<lambda>a.
       and_then (free_slot sl a h) (\<lambda>h1.
         and_then (clear_flag (slot_flag sl) a h1) (\<lambda>h2.
           if buffer_data \<noteq> None
           then
             and_then (load a h2) (\<lambda>ib.
               case imb_assign_shared_buffer (slot_of sl ib) buffer_data sharing_info h2 of
                 (b, h3) \<Rightarrow> set_flag (slot_flag sl) a (store a (slot_update sl b ib) h3))
           else Inr h2)))"

definition IMB_assign_shared_byte_buffer ::
  "addr option \<Rightarrow> addr option \<Rightarrow> addr option \<Rightarrow> heap \<Rightarrow> fault + heap" where
  "IMB_assign_shared_byte_buffer = assign_shared_slot ByteBuffer"

definition IMB_assign_shared_float_buffer ::
  "addr option \<Rightarrow> addr option \<Rightarrow> addr option \<Rightarrow> heap \<Rightarrow> fault + heap" where
  "IMB_assign_shared_float_buffer = assign_shared_slot FloatBuffer"

definition IMB_assign_shared_float_z_buffer ::
  "addr option \<Rightarrow> addr option \<Rightarrow> addr option \<Rightarrow> heap \<Rightarrow> fault + heap" where
  "IMB_assign_shared_float_z_buffer = assign_shared_slot FloatZBuffer"

definition assign_slot ::
  "slot \<Rightarrow> addr option \<Rightarrow> addr option \<Rightarrow> ImBufOwnership \<Rightarrow> heap \<Rightarrow> fault + heap" where
  "assign_slot sl ibuf buffer_data own h =
     and_then (nonnull ibuf) (\<lambda>a.
       and_then (free_slot sl a h) (\<lambda>h1.
         and_then (clear_flag (slot_flag sl) a h1) (\<lambda>h2.
           if buffer_data \<noteq> None
           then
             and_then (modify a (\<lambda>ib.
                 slot_update sl ((slot_of sl ib)\<lparr>data := buffer_data, ownership := own\<rparr>) ib) h2)
               (\<lambda>h3. set_flag (slot_flag sl) a h3)
           else Inr h2)))"

definition IMB_assign_byte_buffer ::
  "addr option \<Rightarrow> addr option \<Rightarrow> ImBufOwnership \<Rightarrow> heap \<Rightarrow> fault + heap" where
  "IMB_assign_byte_buffer = assign_slot ByteBuffer"

definition IMB_assign_float_buffer ::
  "addr option \<Rightarrow> addr option \<Rightarrow> ImBufOwnership \<Rightarrow> heap \<Rightarrow> fault + heap" where
  "IMB_assign_float_buffer = assign_slot FloatBuffer"

definition IMB_assign_z_buffer ::
  "addr option \<Rightarrow> addr option \<Rightarrow> ImBufOwnership \<Rightarrow> heap \<Rightarrow> fault + heap" where
  "IMB_assign_z_buffer = assign_slot ZBuffer"

definition IMB_assign_float_z_buffer ::
  "addr option \<Rightarrow> addr option \<Rightarrow> ImBufOwnership \<Rightarrow> heap \<Rightarrow> fault + heap" where
  "IMB_assign_float_z_buffer = assign_slot FloatZBuffer"

subsection \<open>Creating and duplicating image buffers\<close>

definition zero_buffer :: buffer where
  "zero_buffer = \<lparr>data = None, ownership = IB_DO_NOT_TAKE_OWNERSHIP, implicit_sharing = None\<rparr>"

text \<open>The struct after \<open>memset(ibuf, 0, sizeof(ImBuf))\<close>, and as \<open>MEM_cnew\<close> returns it.\<close>

definition zero_ImBuf :: ImBuf where
  "zero_ImBuf =
     \<lparr>dim_x = 0, dim_y = 0, planes = 0, channels = 0, flags = 0,
      byte_buffer = zero_buffer, float_buffer = zero_buffer, z_buffer = zero_buffer,
      float_z_buffer = zero_buffer, encoded_buffer = zero_buffer,
      encoded_size = 0, encoded_buffer_size = 0,
      mipmap = (\<lambda>l. None), miptot = 0, refcounter = 0,
      metadata = None, display_buffer_flags = None, colormanage_cache = None,
      dds_data = None\<rparr>"

text \<open>
  Modelled from the spec: \<open>MEM_cnew\<close> (MEM_guardedalloc.h) is not under src/; it is a
  zero-initialising allocation of one struct and may return null.
\<close>

definition MEM_cnew_ImBuf :: "heap \<Rightarrow> addr option \<times> heap" where
  "MEM_cnew_ImBuf h =
     (if alloc_ok h (requests h)
      then (Some (requests h),
            h\<lparr>ibufs := (ibufs h)(requests h \<mapsto> zero_ImBuf), requests := Suc (requests h)\<rparr>)
      else (None, h\<lparr>requests := Suc (requests h)\<rparr>))"

text \<open>
  \<open>IMB_initImBuf\<close>: the defaults of the fields that are left out (file type, quality,
  pixel density, and the colour spaces that \<open>colormanage_imbuf_set_default_spaces\<close>
  sets on the success path) do not appear.
\<close>

definition IMB_initImBuf ::
  "nat \<Rightarrow> addr option \<Rightarrow> 32 word \<Rightarrow> 32 word \<Rightarrow> 8 word \<Rightarrow> 32 word \<Rightarrow> heap
     \<Rightarrow> fault + bool \<times> heap" where
  "IMB_initImBuf fuel ibuf x y planes_arg flags_arg h =
     and_then (nonnull ibuf) (\<lambda>a.
       and_then (load a h) (\<lambda>old.
         and_then
           (if flags_arg AND IB_rect \<noteq> 0
            then imb_addrectImBuf ibuf
                   (store a (zero_ImBuf\<lparr>dim_x := x, dim_y := y, planes := planes_arg,
                                        channels := 4\<rparr>) h)
            else Inr (True,
                   store a (zero_ImBuf\<lparr>dim_x := x, dim_y := y, planes := planes_arg,
                                        channels := 4\<rparr>) h)) (\<lambda>(ok1, h1).
           if \<not> ok1 then Inr (False, h1)
           else
             and_then
               (if flags_arg AND IB_rectfloat \<noteq> 0
                then and_then (load a h1) (\<lambda>ib.
                       imb_addrectfloatImBuf fuel ibuf (channels ib) h1)
                else Inr (True, h1)) (\<lambda>(ok2, h2).
               if \<not> ok2 then Inr (False, h2)
               else
                 and_then
                   (if flags_arg AND IB_zbuf \<noteq> 0 then addzbufImBuf ibuf h2
                    else Inr (True, h2)) (\<lambda>(ok3, h3).
                   if \<not> ok3 then Inr (False, h3)
                   else
                     and_then
                       (if flags_arg AND IB_zbuffloat \<noteq> 0 then addzbuffloatImBuf ibuf h3
                        else Inr (True, h3)) (\<lambda>(ok4, h4).
                       if \<not> ok4 then Inr (False, h4) else Inr (True, h4)))))))"

definition IMB_allocImBuf ::
  "nat \<Rightarrow> 32 word \<Rightarrow> 32 word \<Rightarrow> 8 word \<Rightarrow> 32 word \<Rightarrow> heap \<Rightarrow> fault + addr option \<times> heap" where
  "IMB_allocImBuf fuel x y planes_arg flags_arg h =
     (case MEM_cnew_ImBuf h of
        (None, h1) \<Rightarrow> Inr (None, h1)
      | (Some a, h1) \<Rightarrow>
          and_then (IMB_initImBuf fuel (Some a) x y planes_arg flags_arg h1) (\<lambda>(ok, h2).
            if \<not> ok
            then and_then (IMB_freeImBuf fuel (Some a) h2) (\<lambda>h3. Inr (None, h3))
            else Inr (Some a, h2)))"

definition IMB_allocFromBufferOwn ::
  "nat \<Rightarrow> addr option \<Rightarrow> addr option \<Rightarrow> 32 word \<Rightarrow> 32 word \<Rightarrow> 32 word \<Rightarrow> heap
     \<Rightarrow> fault + addr option \<times> heap" where
  "IMB_allocFromBufferOwn fuel byte_data float_data w ht chans h =
     (if byte_data = None \<and> float_data = None then Inr (None, h)
      else
        and_then (IMB_allocImBuf fuel w ht 32 0 h) (\<lambda>(ibuf, h1).
          and_then (nonnull ibuf) (\<lambda>a.
            and_then (modify a (\<lambda>ib. ib\<lparr>channels := chans\<rparr>) h1) (\<lambda>h2.
              and_then
                (if float_data \<noteq> None
                 then IMB_assign_float_buffer ibuf float_data IB_TAKE_OWNERSHIP h2
                 else Inr h2) (\<lambda>h3.
                and_then
                  (if byte_data \<noteq> None
                   then IMB_assign_byte_buffer ibuf byte_data IB_TAKE_OWNERSHIP h3
                   else Inr h3) (\<lambda>h4.
                  Inr (ibuf, h4)))))))"

text \<open>
  \<open>IMB_allocFromBuffer\<close> ignores the result of \<open>imb_alloc_buffer\<close> and does not set the
  flag of the slot it fills. \<open>sizeof(float[4]) * w * h\<close> is a \<open>size_t\<close> product.
\<close>

definition IMB_allocFromBuffer ::
  "nat \<Rightarrow> addr option \<Rightarrow> addr option \<Rightarrow> 32 word \<Rightarrow> 32 word \<Rightarrow> 32 word \<Rightarrow> heap
     \<Rightarrow> fault + addr option \<times> heap" where
  "IMB_allocFromBuffer fuel byte_data float_data w ht chans h =
     (if byte_data = None \<and> float_data = None then Inr (None, h)
      else
        and_then (IMB_allocImBuf fuel w ht 32 0 h) (\<lambda>(ibuf, h1).
          and_then (nonnull ibuf) (\<lambda>a.
            and_then (modify a (\<lambda>ib. ib\<lparr>channels := chans\<rparr>) h1) (\<lambda>h2.
              and_then
                (if float_data \<noteq> None
                 then
                   and_then (alloc_slot FloatBuffer a w ht 4 4 h2) (\<lambda>(ok, h3).
                     and_then (load a h3) (\<lambda>ib.
                       memcpy (data (float_buffer ib)) float_data
                         ((16 * unat w * unat ht) mod 2 ^ 64) h3))
                 else Inr h2) (\<lambda>h4.
                and_then
                  (if byte_data \<noteq> None
                   then
                     and_then (alloc_slot ByteBuffer a w ht 4 1 h4) (\<lambda>(ok, h5).
                       and_then (load a h5) (\<lambda>ib.
                         memcpy (data (byte_buffer ib)) byte_data
                           ((4 * unat w * unat ht) mod 2 ^ 64) h5))
                   else Inr h4) (\<lambda>h6.
                  Inr (ibuf, h6)))))))"

text \<open>
  \<open>IMB_dupImBuf\<close> keeps the width and height in \<open>int\<close> variables: \<open>size_t(x)\<close> and the
  conversion of \<open>y\<close> in \<open>size_t(x) * y\<close> extend the sign, and the products wrap at
  \<open>2 ^ 64\<close>. \<open>channels\<close> is unsigned (spec, data model). The source is read through
  \<open>ibuf1\<close> at every use, as the code does.
\<close>

definition size_t_of_int :: "32 word \<Rightarrow> nat" where
  "size_t_of_int w = unat (scast w :: 64 word)"

definition dup_flags :: "ImBuf \<Rightarrow> 32 word" where
  "dup_flags ib1 =
     (((if data (byte_buffer ib1) \<noteq> None then IB_rect else 0)
        OR (if data (float_buffer ib1) \<noteq> None then IB_rectfloat else 0))
        OR (if data (z_buffer ib1) \<noteq> None then IB_zbuf else 0))
        OR (if data (float_z_buffer ib1) \<noteq> None then IB_zbuffloat else 0)"

definition copy_pixels ::
  "bool \<Rightarrow> (ImBuf \<Rightarrow> buffer) \<Rightarrow> (ImBuf \<Rightarrow> buffer) \<Rightarrow> addr \<Rightarrow> addr \<Rightarrow> nat \<Rightarrow> heap \<Rightarrow> fault + heap" where
  "copy_pixels wanted dst_slot src_slot a2 a1 n h =
     (if wanted
      then
        and_then (load a2 h) (\<lambda>ib2.
          and_then (load a1 h) (\<lambda>ib1.
            memcpy (data (dst_slot ib2)) (data (src_slot ib1)) n h))
      else Inr h)"

definition IMB_dupImBuf :: "nat \<Rightarrow> addr option \<Rightarrow> heap \<Rightarrow> fault + addr option \<times> heap" where
  "IMB_dupImBuf fuel ibuf1 h =
     (case ibuf1 of
        None \<Rightarrow> Inr (None, h)
      | Some a1 \<Rightarrow>
          and_then (load a1 h) (\<lambda>src.
            let flgs = dup_flags src;
                x = size_t_of_int (dim_x src);
                y = size_t_of_int (dim_y src)
            in
            and_then (IMB_allocImBuf fuel (dim_x src) (dim_y src) (planes src) flgs h)
              (\<lambda>(ibuf2, h1).
              case ibuf2 of
                None \<Rightarrow> Inr (None, h1)
              | Some a2 \<Rightarrow>
                  and_then (copy_pixels (flgs AND IB_rect \<noteq> 0) byte_buffer byte_buffer a2 a1
                              ((x * y * 4 * 1) mod 2 ^ 64) h1) (\<lambda>h2.
                  and_then (load a1 h2) (\<lambda>src2.
                  and_then (copy_pixels (flgs AND IB_rectfloat \<noteq> 0) float_buffer float_buffer
                              a2 a1 ((unat (channels src2) * x * y * 4) mod 2 ^ 64) h2) (\<lambda>h3.
                  and_then (copy_pixels (flgs AND IB_zbuf \<noteq> 0) z_buffer z_buffer a2 a1
                              ((x * y * 4) mod 2 ^ 64) h3) (\<lambda>h4.
                  and_then (copy_pixels (flgs AND IB_zbuffloat \<noteq> 0) float_buffer float_buffer
                              a2 a1 ((x * y * 4) mod 2 ^ 64) h4) (\<lambda>h5.
                  and_then (load a1 h5) (\<lambda>src5.
                  and_then
                    (if data (encoded_buffer src5) \<noteq> None
                     then
                       and_then (modify a2 (\<lambda>ib2.
                           ib2\<lparr>encoded_buffer_size := encoded_buffer_size src5\<rparr>) h5) (\<lambda>h6.
                         and_then (imb_addencodedbufferImBuf ibuf2 h6) (\<lambda>(ok, h7).
                           if \<not> ok
                           then and_then (IMB_freeImBuf fuel ibuf2 h7) (\<lambda>h8. Inr (False, h8))
                           else
                             and_then (load a1 h7) (\<lambda>src7.
                               and_then (copy_pixels True encoded_buffer encoded_buffer a2 a1
                                           (unat (encoded_size src7)) h7) (\<lambda>h8.
                                 Inr (True, h8)))))
                     else Inr (True, h5)) (\<lambda>(go_on, h9).
                    if \<not> go_on then Inr (None, h9)
                    else
                      and_then (load a1 h9) (\<lambda>tbuf.
                        and_then (load a2 h9) (\<lambda>ib2.
                          Inr (ibuf2,
                               store a2
                                 (tbuf\<lparr>byte_buffer := byte_buffer ib2,
                                       float_buffer := float_buffer ib2,
                                       encoded_buffer := encoded_buffer ib2,
                                       z_buffer := z_buffer ib2,
                                       float_z_buffer := float_z_buffer ib2,
                                       mipmap := fold (\<lambda>l m. m(l := None))
                                                   [0..<IMB_MIPMAP_LEVELS] (mipmap tbuf),
                                       dds_data := None,
                                       refcounter := 0,
                                       metadata := None,
                                       display_buffer_flags := None,
                                       colormanage_cache := None\<rparr>)
                                 h9)))))))))))))"

text \<open>
  Modelled from the spec: \<open>IMB_metadata_copy\<close> (IMB_metadata.h) is not under src/; it
  gives the destination a copy of the source's metadata, freeing what the destination
  held.
\<close>

definition IMB_metadata_copy :: "addr option \<Rightarrow> addr option \<Rightarrow> heap \<Rightarrow> fault + heap" where
  "IMB_metadata_copy dimb simb h =
     and_then (nonnull simb) (\<lambda>s.
       and_then (load s h) (\<lambda>src.
         if metadata src = None then Inr h
         else
           and_then (nonnull dimb) (\<lambda>d.
             and_then (load d h) (\<lambda>dst.
               Inr (store d (dst\<lparr>metadata := Some (requests h)\<rparr>)
                      ((IMB_metadata_free (metadata dst) h)
                         \<lparr>externals := insert (requests h)
                                         (externals (IMB_metadata_free (metadata dst) h)),
                          requests := Suc (requests h)\<rparr>))))))"

definition IMB_makeSingleUser :: "nat \<Rightarrow> addr option \<Rightarrow> heap \<Rightarrow> fault + addr option \<times> heap" where
  "IMB_makeSingleUser fuel ibuf h =
     (case ibuf of
        None \<Rightarrow> Inr (None, h)
      | Some a \<Rightarrow>
          and_then (load a h) (\<lambda>ib.
            if refcounter ib = 0 then Inr (ibuf, h)
            else
              and_then (IMB_dupImBuf fuel ibuf h) (\<lambda>(rval, h1).
                and_then (IMB_metadata_copy rval ibuf h1) (\<lambda>h2.
                  and_then (IMB_freeImBuf fuel ibuf h2) (\<lambda>h3.
                    Inr (rval, h3))))))"

subsection \<open>Well-formed states\<close>

text \<open>
  The allocator hands out addresses it has not handed out before: in a well-formed heap
  nothing lives at or above the next address, and no shared control block owns such an
  address.
\<close>

definition heap_wf :: "heap \<Rightarrow> bool" where
  "heap_wf h \<longleftrightarrow>
     (\<forall>a. requests h \<le> a \<longrightarrow> blocks h a = None \<and> ibufs h a = None) \<and>
     (\<forall>s n d. sharing h s = Some (n, d) \<longrightarrow> d < requests h)"

text \<open>
  The invariant of a slot (spec, data model; asserted by \<open>imb_free_buffer\<close>): a slot that
  owns its memory has no shared handle.
\<close>

definition buffer_inv :: "buffer \<Rightarrow> bool" where
  "buffer_inv b \<longleftrightarrow> (ownership b = IB_TAKE_OWNERSHIP \<longrightarrow> implicit_sharing b = None)"

text \<open>The bytes a slot points to.\<close>

definition slot_bytes :: "buffer \<Rightarrow> heap \<Rightarrow> byte list option" where
  "slot_bytes b h = (case data b of None \<Rightarrow> None | Some d \<Rightarrow> blocks h d)"

text \<open>States for the examples: an empty heap whose allocator grants every request.\<close>

definition heap0 :: heap where
  "heap0 = \<lparr>blocks = (\<lambda>a. None), sharing = (\<lambda>a. None), ibufs = (\<lambda>a. None), externals = {},
            requests = 0, alloc_ok = (\<lambda>n. True)\<rparr>"

text \<open>A heap with one block of three bytes, shared by two users through a control block.\<close>

definition heap_shared :: heap where
  "heap_shared =
     \<lparr>blocks = (\<lambda>a. None)(0 \<mapsto> [1, 2, 3]), sharing = (\<lambda>a. None)(5 \<mapsto> (2, 0)),
      ibufs = (\<lambda>a. None), externals = {}, requests = 10, alloc_ok = (\<lambda>n. True)\<rparr>"

definition shared_slot :: buffer where
  "shared_slot =
     \<lparr>data = Some 0, ownership = IB_DO_NOT_TAKE_OWNERSHIP, implicit_sharing = Some 5\<rparr>"

text \<open>A slot that borrows the same block without a control block.\<close>

definition borrowed_slot :: buffer where
  "borrowed_slot =
     \<lparr>data = Some 0, ownership = IB_DO_NOT_TAKE_OWNERSHIP, implicit_sharing = None\<rparr>"

text \<open>A heap that holds one image buffer, at address 0.\<close>

definition heap_one :: "ImBuf \<Rightarrow> heap" where
  "heap_one ib =
     \<lparr>blocks = (\<lambda>a. None), sharing = (\<lambda>a. None), ibufs = (\<lambda>a. None)(0 \<mapsto> ib),
      externals = {}, requests = 1, alloc_ok = (\<lambda>n. True)\<rparr>"

text \<open>The capacity that \<open>imb_enlargeencodedbufferImBuf\<close> computes from the old one.\<close>

definition enlarged_size :: "32 word \<Rightarrow> 32 word" where
  "enlarged_size cap = (if 2 * cap < 10000 then 10000 else 2 * cap)"

text \<open>Image buffers for the examples: 2 by 3 pixels, the second with 64 bit planes.\<close>

definition small_image :: ImBuf where
  "small_image = zero_ImBuf\<lparr>dim_x := 2, dim_y := 3, planes := 32, channels := 4\<rparr>"

definition deep_image :: ImBuf where
  "deep_image = zero_ImBuf\<lparr>dim_x := 2, dim_y := 3, planes := 64, channels := 4\<rparr>"

text \<open>
  An image buffer whose encoded slot holds the five bytes in use of a block of eight,
  at address 1, and the heap that holds it.
\<close>

definition encoded_image :: ImBuf where
  "encoded_image =
     zero_ImBuf\<lparr>encoded_buffer := \<lparr>data = Some 1, ownership = IB_TAKE_OWNERSHIP,
                                    implicit_sharing = None\<rparr>,
                encoded_size := 5, encoded_buffer_size := 8, flags := IB_mem\<rparr>"

definition heap_encoded :: heap where
  "heap_encoded =
     \<lparr>blocks = (\<lambda>a. None)(1 \<mapsto> [10, 20, 30, 40, 50, 0, 0, 0]), sharing = (\<lambda>a. None),
      ibufs = (\<lambda>a. None)(0 \<mapsto> encoded_image), externals = {}, requests = 2,
      alloc_ok = (\<lambda>n. True)\<rparr>"

text \<open>The same heap with an allocator that refuses every request.\<close>

definition heap_refusing :: heap where
  "heap_refusing = heap_encoded\<lparr>alloc_ok := (\<lambda>n. False)\<rparr>"

text \<open>An image buffer that claims five bytes in use in a buffer of capacity zero.\<close>

definition inconsistent_image :: ImBuf where
  "inconsistent_image = zero_ImBuf\<lparr>encoded_size := 5\<rparr>"

subsection \<open>What a release may change\<close>

text \<open>
  A release only gives memory back: no block, control block, image buffer or external
  handle appears, the contents of the blocks that stay are the same, and no user count or
  reference count grows; a reference count that changed has not dropped below zero.
\<close>

definition releases :: "heap \<Rightarrow> heap \<Rightarrow> bool" where
  "releases h h' \<longleftrightarrow>
     (\<forall>a. blocks h' a = None \<or> blocks h' a = blocks h a) \<and>
     (\<forall>s. sharing h' s = None
          \<or> (\<exists>n n' d. sharing h s = Some (n, d) \<and> sharing h' s = Some (n', d) \<and> n' \<le> n)) \<and>
     (\<forall>a. ibufs h' a = None
          \<or> (\<exists>ib ib'. ibufs h a = Some ib \<and> ibufs h' a = Some ib'
                \<and> refcounter ib' \<le> refcounter ib
                \<and> (refcounter ib' < refcounter ib \<longrightarrow> 0 \<le> refcounter ib'))) \<and>
     externals h' \<subseteq> externals h"

text \<open>
  Image buffers outside \<open>A\<close> that are still there are the same up to their reference count.
\<close>

definition untouched :: "addr set \<Rightarrow> heap \<Rightarrow> heap \<Rightarrow> bool" where
  "untouched A h h' \<longleftrightarrow>
     (\<forall>b ib'. b \<notin> A \<longrightarrow> ibufs h' b = Some ib' \<longrightarrow>
        (\<exists>ib. ibufs h b = Some ib \<and> ib' = ib\<lparr>refcounter := refcounter ib'\<rparr>))"

text \<open>
  A mipmap level has been released: it is gone, or its reference count has dropped and is not
  negative.
\<close>

definition released_child :: "addr \<Rightarrow> heap \<Rightarrow> heap \<Rightarrow> bool" where
  "released_child c h h' \<longleftrightarrow>
     ibufs h' c = None
     \<or> (\<exists>cb cb'. ibufs h c = Some cb \<and> ibufs h' c = Some cb'
           \<and> refcounter cb' < refcounter cb \<and> 0 \<le> refcounter cb')"

text \<open>
  A slot has been released: the block it owned is gone, and the control block it shared is
  gone or has lost a user.
\<close>

definition slot_released :: "buffer \<Rightarrow> heap \<Rightarrow> heap \<Rightarrow> bool" where
  "slot_released b h h' \<longleftrightarrow>
     (\<forall>d. data b = Some d \<and> ownership b = IB_TAKE_OWNERSHIP \<and> implicit_sharing b = None
          \<longrightarrow> blocks h' d = None) \<and>
     (\<forall>s n d. implicit_sharing b = Some s \<and> sharing h s = Some (n, d)
          \<longrightarrow> sharing h' s = None \<or> (\<exists>n'. n' < n \<and> sharing h' s = Some (n', d)))"

text \<open>
  What the functions of the free path expect of the function that frees a mipmap level.
\<close>

definition release_fn :: "(addr option \<Rightarrow> heap \<Rightarrow> fault + heap) \<Rightarrow> bool" where
  "release_fn fc \<longleftrightarrow>
     (\<forall>p h h'. fc p h = Inr h' \<longrightarrow>
        releases h h' \<and> untouched {} h h' \<and> (\<forall>c. p = Some c \<longrightarrow> released_child c h h'))"

text \<open>
  The struct as the teardown leaves it before the memory of the struct itself is freed.
\<close>

definition torn_down :: "ImBuf \<Rightarrow> ImBuf" where
  "torn_down ib =
     ib\<lparr>byte_buffer := zero_buffer, float_buffer := zero_buffer, z_buffer := zero_buffer,
        float_z_buffer := zero_buffer, encoded_buffer := zero_buffer,
        encoded_buffer_size := 0, encoded_size := 0,
        flags := ((((flags ib AND NOT IB_rect) AND NOT IB_rectfloat) AND NOT IB_zbuf)
                   AND NOT IB_zbuffloat) AND NOT IB_mem,
        miptot := 0\<rparr>"









text \<open>
  An image buffer of one pixel with four floats of colour at address 1 and one float of depth at
  address 2, and the heap that holds it.
\<close>

definition depth_image :: ImBuf where
  "depth_image =
     zero_ImBuf\<lparr>dim_x := 1, dim_y := 1, planes := 32, channels := 4,
                flags := IB_rectfloat OR IB_zbuffloat,
                float_buffer := \<lparr>data = Some 1, ownership = IB_TAKE_OWNERSHIP,
                                  implicit_sharing = None\<rparr>,
                float_z_buffer := \<lparr>data = Some 2, ownership = IB_TAKE_OWNERSHIP,
                                    implicit_sharing = None\<rparr>\<rparr>"

definition heap_depth :: heap where
  "heap_depth =
     \<lparr>blocks = ((\<lambda>a. None)(1 \<mapsto> [1, 2, 3, 4, 5, 6, 7, 8, 9, 10, 11, 12, 13, 14, 15, 16]))
                  (2 \<mapsto> [9, 9, 9, 9]),
      sharing = (\<lambda>a. None), ibufs = (\<lambda>a. None)(0 \<mapsto> depth_image), externals = {},
      requests = 3, alloc_ok = (\<lambda>n. True)\<rparr>"

subsection \<open>The flag invariant\<close>

text \<open>
  The invariant of the data model: for each of the five slots, the flag bit of the slot is
  set in \<open>flags\<close> exactly when the data pointer of the slot is not null. A heap satisfies
  it when every image buffer it holds does.
\<close>

definition flag_matches :: "slot \<Rightarrow> ImBuf \<Rightarrow> bool" where
  "flag_matches sl ib \<longleftrightarrow> (flags ib AND slot_flag sl \<noteq> 0) = (data (slot_of sl ib) \<noteq> None)"

definition flags_ok :: "ImBuf \<Rightarrow> bool" where
  "flags_ok ib \<longleftrightarrow>
     flag_matches ByteBuffer ib \<and> flag_matches FloatBuffer ib \<and> flag_matches ZBuffer ib \<and>
     flag_matches FloatZBuffer ib \<and> flag_matches EncodedBuffer ib"

definition heap_flags_ok :: "heap \<Rightarrow> bool" where
  "heap_flags_ok h \<longleftrightarrow> (\<forall>a ib. ibufs h a = Some ib \<longrightarrow> flags_ok ib)"

text \<open>
  An image buffer of 2 by 1 pixels that owns a byte slot of eight bytes at address 1, in a
  heap whose allocator refuses every request; and an image buffer whose byte slot borrows
  the block at address 1 and whose float slot shares the block at address 2 through the
  control block 3, in a heap whose allocator grants every request.
\<close>

definition painted_image :: ImBuf where
  "painted_image =
     zero_ImBuf\<lparr>dim_x := 2, dim_y := 1, planes := 32, channels := 4, flags := IB_rect,
                byte_buffer := \<lparr>data = Some 1, ownership = IB_TAKE_OWNERSHIP,
                                 implicit_sharing = None\<rparr>\<rparr>"

definition heap_painted :: heap where
  "heap_painted =
     \<lparr>blocks = (\<lambda>a. None)(1 \<mapsto> [1, 2, 3, 4, 5, 6, 7, 8]), sharing = (\<lambda>a. None),
      ibufs = (\<lambda>a. None)(0 \<mapsto> painted_image), externals = {}, requests = 2,
      alloc_ok = (\<lambda>n. False)\<rparr>"

definition lent_image :: ImBuf where
  "lent_image =
     zero_ImBuf\<lparr>dim_x := 2, dim_y := 1, planes := 32, channels := 1,
                flags := IB_rect OR IB_rectfloat,
                byte_buffer := \<lparr>data = Some 1, ownership = IB_DO_NOT_TAKE_OWNERSHIP,
                                 implicit_sharing = None\<rparr>,
                float_buffer := \<lparr>data = Some 2, ownership = IB_DO_NOT_TAKE_OWNERSHIP,
                                  implicit_sharing = Some 3\<rparr>\<rparr>"

definition heap_lent :: heap where
  "heap_lent =
     \<lparr>blocks = ((\<lambda>a. None)(1 \<mapsto> [1, 2, 3, 4, 5, 6, 7, 8]))(2 \<mapsto> [0, 0, 0, 0, 0, 0, 0, 0]),
      sharing = (\<lambda>a. None)(3 \<mapsto> (2, 2)),
      ibufs = (\<lambda>a. None)(0 \<mapsto> lent_image), externals = {}, requests = 4,
      alloc_ok = (\<lambda>n. True)\<rparr>"

section \<open>Properties\<close>

subsection \<open>Basic facts\<close>

lemma and_then_Inl [simp]: "and_then (Inl e) f = Inl e"
  by (simp add: and_then_def)

lemma and_then_Inr [simp]: "and_then (Inr v) f = f v"
  by (simp add: and_then_def)

lemma and_then_eq_Inr: "and_then r f = Inr y \<longleftrightarrow> (\<exists>v. r = Inr v \<and> f v = Inr y)"
  by (cases r) simp_all

lemma heap_wf_fresh_block: "heap_wf h \<Longrightarrow> blocks h (requests h) = None"
  by (simp add: heap_wf_def)

lemma heap_wf_live_block: "heap_wf h \<Longrightarrow> blocks h a = Some bs \<Longrightarrow> a \<noteq> requests h"
  by (auto simp: heap_wf_def)

lemma heap_wf_shared_block: "heap_wf h \<Longrightarrow> sharing h s = Some (n, d) \<Longrightarrow> d \<noteq> requests h"
  by (fastforce simp: heap_wf_def)

lemma load_eq_Inr [simp]: "load a h = Inr ib \<longleftrightarrow> ibufs h a = Some ib"
  by (simp add: load_def split: option.splits)

lemma load_live: "ibufs h a = Some ib \<Longrightarrow> load a h = Inr ib"
  by simp

lemma store_fields [simp]:
  "ibufs (store a ib h) = (ibufs h)(a \<mapsto> ib)"
  "blocks (store a ib h) = blocks h"
  "sharing (store a ib h) = sharing h"
  "requests (store a ib h) = requests h"
  "alloc_ok (store a ib h) = alloc_ok h"
  "externals (store a ib h) = externals h"
  by (simp_all add: store_def)

lemma store_store [simp]: "store a ib (store a ib0 h) = store a ib h"
  by (simp add: store_def)

lemma modify_run: "ibufs h a = Some ib \<Longrightarrow> modify a f h = Inr (store a (f ib) h)"
  by (simp add: modify_def load_live)

lemma buffer_all_updates [simp]:
  "b\<lparr>data := d, ownership := ow, implicit_sharing := s\<rparr>
     = \<lparr>data = d, ownership = ow, implicit_sharing = s\<rparr>"
  by (cases b) simp

subsection \<open>Flag bits\<close>

lemma flag_set: "g \<noteq> 0 \<Longrightarrow> (f OR g) AND g \<noteq> (0 :: 32 word)"
  by (simp add: word_ao_absorbs)

lemma flag_clear: "(f AND NOT g) AND g = (0 :: 32 word)"
  by (simp add: bit_eq_iff bit_simps)

lemma flag_other_set: "g AND g' = 0 \<Longrightarrow> (f OR g) AND g' = f AND (g' :: 32 word)"
  by (simp add: bit.conj_disj_distrib2)

lemma flag_other_clear:
  assumes "g AND g' = 0"
  shows "(f AND NOT g) AND g' = f AND (g' :: 32 word)"
proof -
  have "\<not> (bit g n \<and> bit g' n)" for n
    using assms by (metis bit_0_eq bit_and_iff bot_apply bot_bool_def)
  then show ?thesis
    by (auto simp: bit_eq_iff bit_simps)
qed

lemma flags_nonzero [simp]:
  "IB_rect \<noteq> 0" "IB_zbuf \<noteq> 0" "IB_mem \<noteq> 0" "IB_rectfloat \<noteq> 0" "IB_zbuffloat \<noteq> 0"
  by (simp_all add: IB_rect_def IB_zbuf_def IB_mem_def IB_rectfloat_def IB_zbuffloat_def)

lemma flags_disjoint [simp]:
  "IB_rect AND IB_zbuf = 0" "IB_rect AND IB_mem = 0" "IB_rect AND IB_rectfloat = 0"
  "IB_rect AND IB_zbuffloat = 0"
  "IB_zbuf AND IB_rect = 0" "IB_zbuf AND IB_mem = 0" "IB_zbuf AND IB_rectfloat = 0"
  "IB_zbuf AND IB_zbuffloat = 0"
  "IB_mem AND IB_rect = 0" "IB_mem AND IB_zbuf = 0" "IB_mem AND IB_rectfloat = 0"
  "IB_mem AND IB_zbuffloat = 0"
  "IB_rectfloat AND IB_rect = 0" "IB_rectfloat AND IB_zbuf = 0" "IB_rectfloat AND IB_mem = 0"
  "IB_rectfloat AND IB_zbuffloat = 0"
  "IB_zbuffloat AND IB_rect = 0" "IB_zbuffloat AND IB_zbuf = 0" "IB_zbuffloat AND IB_mem = 0"
  "IB_zbuffloat AND IB_rectfloat = 0"
  by (simp_all add: IB_rect_def IB_zbuf_def IB_mem_def IB_rectfloat_def IB_zbuffloat_def)

subsection \<open>Freeing a slot\<close>

lemma imb_free_buffer_fst [simp]: "fst (imb_free_buffer b h) = zero_buffer"
  by (simp add: imb_free_buffer_def zero_buffer_def)

lemma remove_user_fields [simp]:
  "ibufs (remove_user_and_delete_if_last s h) = ibufs h"
  "requests (remove_user_and_delete_if_last s h) = requests h"
  "alloc_ok (remove_user_and_delete_if_last s h) = alloc_ok h"
  "externals (remove_user_and_delete_if_last s h) = externals h"
  by (simp_all add: remove_user_and_delete_if_last_def split: option.splits prod.splits)

lemma imb_free_buffer_fields [simp]:
  "ibufs (snd (imb_free_buffer b h)) = ibufs h"
  "requests (snd (imb_free_buffer b h)) = requests h"
  "alloc_ok (snd (imb_free_buffer b h)) = alloc_ok h"
  "externals (snd (imb_free_buffer b h)) = externals h"
  by (simp_all add: imb_free_buffer_def MEM_freeN_def
      split: option.splits ImBufOwnership.splits)

lemma imb_free_buffer_zero [simp]: "imb_free_buffer zero_buffer h = (zero_buffer, h)"
  by (simp add: imb_free_buffer_def zero_buffer_def)

lemma imb_free_buffer_store [simp]:
  "snd (imb_free_buffer b (store a ib h)) = store a ib (snd (imb_free_buffer b h))"
  by (simp add: imb_free_buffer_def store_def remove_user_and_delete_if_last_def MEM_freeN_def
      split: option.splits ImBufOwnership.splits prod.splits)

lemma remove_user_blocks:
  "blocks (remove_user_and_delete_if_last s h) a
     = (if (\<exists>n. sharing h s = Some (n, a) \<and> n \<le> 1) then None else blocks h a)"
  by (auto simp: remove_user_and_delete_if_last_def split: option.splits)

lemma imb_free_buffer_blocks:
  "blocks (snd (imb_free_buffer b h)) a
     = (case implicit_sharing b of
          Some s \<Rightarrow> (if (\<exists>n. sharing h s = Some (n, a) \<and> n \<le> 1) then None else blocks h a)
        | None \<Rightarrow> (if data b = Some a \<and> ownership b = IB_TAKE_OWNERSHIP then None
                    else blocks h a))"
  by (auto simp: imb_free_buffer_def remove_user_blocks MEM_freeN_def
      split: option.splits ImBufOwnership.splits)

lemma free_buffer_keeps_fresh:
  assumes "heap_wf h" and "data b \<noteq> Some (requests h)"
    and "sharing h' = sharing h"
  shows "blocks (snd (imb_free_buffer b h')) (requests h) = blocks h' (requests h)"
  using assms
  by (auto simp: imb_free_buffer_blocks split: option.splits dest: heap_wf_shared_block)

lemma free_slot_run:
  "ibufs h a = Some ib \<Longrightarrow>
   free_slot sl a h
     = Inr (store a (slot_update sl zero_buffer ib) (snd (imb_free_buffer (slot_of sl ib) h)))"
  by (simp add: free_slot_def load_live case_prod_beta)

subsection \<open>The size guard\<close>

lemma guard_no_wrap:
  fixes x y :: "32 word"
  shows "(unat x * unat y) mod 2 ^ 64 = unat x * unat y"
proof -
  have "unat x < 2 ^ 32" "unat y < 2 ^ 32"
    using unsigned_less [of x, where ?'a = nat] unsigned_less [of y, where ?'a = nat]
    by simp_all
  then have "unat x * unat y < 2 ^ 32 * 2 ^ 32"
    by (rule mult_strict_mono') simp_all
  then show ?thesis by simp
qed

lemma guard_product_fits:
  fixes n d :: nat
  assumes "0 < d" "n < m div d"
  shows "n * d < m"
proof -
  have "Suc n \<le> m div d" using assms by simp
  then have "Suc n * d \<le> (m div d) * d" by (rule mult_le_mono1)
  also have "\<dots> \<le> m" by simp
  finally show ?thesis using assms by simp
qed

lemma imb_alloc_pixels_cases:
  assumes "0 < unat chans * unat typesize" "unat chans * unat typesize < 2 ^ 64"
  shows "imb_alloc_pixels x y chans typesize h =
     (if unat x * unat y < SIZE_MAX div (unat chans * unat typesize)
      then Inr (MEM_callocN (unat x * unat y * unat chans * unat typesize) h)
      else Inr (None, h))"
proof -
  have d: "(unat chans * unat typesize) mod 2 ^ 64 = unat chans * unat typesize"
    using assms by simp
  have nz: "unat chans * unat typesize \<noteq> 0" using assms(1) by simp
  show ?thesis
  proof (cases "unat x * unat y < SIZE_MAX div (unat chans * unat typesize)")
    case True
    then have "unat x * unat y * (unat chans * unat typesize) < SIZE_MAX"
      using assms(1) by (rule guard_product_fits [rotated])
    then have "unat x * unat y * unat chans * unat typesize < 2 ^ 64"
      by (simp add: SIZE_MAX_def mult.assoc)
    then have m: "(unat x * unat y * unat chans * unat typesize) mod 2 ^ 64
        = unat x * unat y * unat chans * unat typesize"
      by simp
    show ?thesis
      unfolding imb_alloc_pixels_def Let_def guard_no_wrap d m
      using True nz by (simp only: if_False if_True not_not simp_thms)
  next
    case False
    show ?thesis
      unfolding imb_alloc_pixels_def Let_def guard_no_wrap d
      using False nz by (simp only: if_False if_True not_not simp_thms)
  qed
qed

text \<open>
  C2. As the claim states it, every size whose byte count fits \<open>SIZE_MAX\<close> is allocated.
  The guard of \<open>imb_alloc_pixels\<close> is \<open>x * y < SIZE_MAX / (channels * typesize)\<close>, a
  strict comparison with a rounded quotient: it refuses \<open>2147483647 * 2147483649\<close>
  pixels of 4 bytes, \<open>2 ^ 64 - 4\<close> bytes in all; the allocator itself may return null
  for a size that passes the guard; and a zero \<open>channels * typesize\<close> divides by zero.
\<close>

theorem imb_alloc_pixels_counterexample:
  "imb_alloc_pixels 2147483647 2147483649 1 4 heap0 = Inr (None, heap0)
   \<and> unat (2147483647 :: 32 word) * unat (2147483649 :: 32 word) * unat (1 :: 32 word)
        * unat (4 :: 64 word) \<le> SIZE_MAX
   \<and> imb_alloc_pixels 1 1 1 1 (heap0\<lparr>alloc_ok := (\<lambda>n. False)\<rparr>)
        = Inr (None, heap0\<lparr>alloc_ok := (\<lambda>n. False), requests := 1\<rparr>)
   \<and> imb_alloc_pixels 1 1 0 4 heap0 = Inl DivisionByZero"
  by (simp add: imb_alloc_pixels_def SIZE_MAX_def MEM_callocN_def heap0_def)

text \<open>
  C2, amended. For a non-zero \<open>channels * typesize\<close> that does not itself wrap: when
  \<open>x * y < SIZE_MAX div (channels * typesize)\<close> and the allocator grants the request,
  \<open>imb_alloc_pixels\<close> returns a new block of exactly \<open>x * y * channels * typesize\<close>
  zero bytes and changes no other block; when the allocator refuses, it returns null;
  when the guard fails, and so whenever the byte count reaches \<open>SIZE_MAX\<close> or
  overflows, it returns null and leaves the heap as it was, with no request made.
\<close>

theorem imb_alloc_pixels_guarded:
  fixes x y chans :: "32 word" and typesize :: "64 word"
  assumes "0 < unat chans * unat typesize" and "unat chans * unat typesize < 2 ^ 64"
  shows
    "(unat x * unat y < SIZE_MAX div (unat chans * unat typesize) \<and> alloc_ok h (requests h) \<longrightarrow>
        (\<exists>h'. imb_alloc_pixels x y chans typesize h = Inr (Some (requests h), h') \<and>
              blocks h' (requests h)
                = Some (replicate (unat x * unat y * unat chans * unat typesize) 0) \<and>
              (\<forall>a. a \<noteq> requests h \<longrightarrow> blocks h' a = blocks h a))) \<and>
     (unat x * unat y < SIZE_MAX div (unat chans * unat typesize) \<and> \<not> alloc_ok h (requests h) \<longrightarrow>
        imb_alloc_pixels x y chans typesize h = Inr (None, h\<lparr>requests := Suc (requests h)\<rparr>)) \<and>
     (\<not> unat x * unat y < SIZE_MAX div (unat chans * unat typesize) \<longrightarrow>
        imb_alloc_pixels x y chans typesize h = Inr (None, h)) \<and>
     (SIZE_MAX \<le> unat x * unat y * unat chans * unat typesize \<longrightarrow>
        imb_alloc_pixels x y chans typesize h = Inr (None, h))"
proof -
  note c = imb_alloc_pixels_cases [OF assms, of x y h]
  have over: "\<not> unat x * unat y < SIZE_MAX div (unat chans * unat typesize)"
    if "SIZE_MAX \<le> unat x * unat y * unat chans * unat typesize"
  proof
    assume "unat x * unat y < SIZE_MAX div (unat chans * unat typesize)"
    then have "unat x * unat y * (unat chans * unat typesize) < SIZE_MAX"
      using assms(1) by (rule guard_product_fits [rotated])
    with that show False by (simp add: mult.assoc)
  qed
  show ?thesis
    using c over by (auto simp: MEM_callocN_def)
qed

theorem imb_alloc_pixels_guarded_witness:
  "(\<exists>h'. imb_alloc_pixels 2 3 4 4 heap0 = Inr (Some 0, h') \<and> blocks h' 0 = Some (replicate 96 0))
   \<and> imb_alloc_pixels 2 3 4 4 (heap0\<lparr>alloc_ok := (\<lambda>n. False)\<rparr>)
       = Inr (None, heap0\<lparr>alloc_ok := (\<lambda>n. False), requests := 1\<rparr>)
   \<and> imb_alloc_pixels 4294967295 4294967295 4 4 heap0 = Inr (None, heap0)"
  using imb_alloc_pixels_guarded [of 4 4 2 3 heap0]
    imb_alloc_pixels_guarded [of 4 4 2 3 "heap0\<lparr>alloc_ok := (\<lambda>n. False)\<rparr>"]
    imb_alloc_pixels_guarded [of 4 4 4294967295 4294967295 heap0]
  by (auto simp add: heap0_def SIZE_MAX_def)

subsection \<open>Slot allocation\<close>

text \<open>
  C8. As the claim states it, a failed allocation leaves the slot untouched.
  \<open>imb_alloc_buffer\<close> stores the result of \<open>imb_alloc_pixels\<close> in \<open>buffer.data\<close> before
  it tests it: a slot that held a pointer holds null after a refused allocation.
\<close>

theorem imb_alloc_buffer_counterexample:
  "imb_alloc_buffer
       \<lparr>data = Some 7, ownership = IB_TAKE_OWNERSHIP, implicit_sharing = None\<rparr>
       4294967295 4294967295 4 4 heap0
     = Inr (False,
            \<lparr>data = None, ownership = IB_TAKE_OWNERSHIP, implicit_sharing = None\<rparr>,
            heap0)
   \<and> \<lparr>data = None, ownership = IB_TAKE_OWNERSHIP, implicit_sharing = None\<rparr>
     \<noteq> \<lparr>data = Some 7, ownership = IB_TAKE_OWNERSHIP, implicit_sharing = None\<rparr>"
  by (simp add: imb_alloc_buffer_def imb_alloc_pixels_def SIZE_MAX_def)

text \<open>
  C8, amended. When the product of the channel count and the element size is not zero
  and is below \<open>2 ^ 64\<close>, \<open>imb_alloc_buffer\<close> returns; it succeeds exactly when the
  guard accepts the size (\<open>x * y\<close> is below the quotient of \<open>SIZE_MAX\<close> by that product)
  and the allocator grants the request. On
  failure it returns false, the data pointer of the slot is null, ownership and shared
  handle are unchanged (so a slot that was empty is untouched) and no block changes.
  On success it returns true and the slot holds a new block of zero bytes of the
  computed size, owned, without shared handle; in a well-formed heap the block is fresh.
\<close>

theorem imb_alloc_buffer_outcome:
  fixes x y chans :: "32 word" and type_size :: "64 word"
  assumes "0 < unat chans * unat type_size" and "unat chans * unat type_size < 2 ^ 64"
  shows
    "\<exists>ok b' h'. imb_alloc_buffer b x y chans type_size h = Inr (ok, b', h') \<and>
       (ok \<longleftrightarrow> unat x * unat y < SIZE_MAX div (unat chans * unat type_size)
                \<and> alloc_ok h (requests h)) \<and>
       (\<not> ok \<longrightarrow>
          data b' = None \<and> ownership b' = ownership b
          \<and> implicit_sharing b' = implicit_sharing b
          \<and> (data b = None \<longrightarrow> b' = b)
          \<and> blocks h' = blocks h) \<and>
       (ok \<longrightarrow>
          b' = \<lparr>data = Some (requests h), ownership = IB_TAKE_OWNERSHIP,
                implicit_sharing = None\<rparr>
          \<and> blocks h' = (blocks h)(requests h \<mapsto>
                replicate (unat x * unat y * unat chans * unat type_size) 0)
          \<and> (heap_wf h \<longrightarrow> blocks h (requests h) = None))"
  unfolding imb_alloc_buffer_def imb_alloc_pixels_cases [OF assms]
  by (cases b) (auto simp: MEM_callocN_def heap_wf_def)

theorem imb_alloc_buffer_outcome_witness:
  "imb_alloc_buffer zero_buffer 2 3 4 4 heap0
     = Inr (True, \<lparr>data = Some 0, ownership = IB_TAKE_OWNERSHIP, implicit_sharing = None\<rparr>,
            heap0\<lparr>blocks := (blocks heap0)(0 \<mapsto> replicate 96 0), requests := 1\<rparr>)
   \<and> imb_alloc_buffer zero_buffer 2 3 4 4 (heap0\<lparr>alloc_ok := (\<lambda>n. False)\<rparr>)
     = Inr (False, zero_buffer, heap0\<lparr>alloc_ok := (\<lambda>n. False), requests := 1\<rparr>)
   \<and> heap_wf heap0"
  using imb_alloc_buffer_outcome [of 4 4 zero_buffer 2 3 heap0]
    imb_alloc_buffer_outcome [of 4 4 zero_buffer 2 3 "heap0\<lparr>alloc_ok := (\<lambda>n. False)\<rparr>"]
  by (simp add: imb_alloc_buffer_def imb_alloc_pixels_def MEM_callocN_def heap0_def
      SIZE_MAX_def zero_buffer_def heap_wf_def)

subsection \<open>Copy-on-write of a slot\<close>

text \<open>
  C9. In a well-formed heap, for a slot that satisfies the slot invariant:
  \<open>imb_make_writeable_buffer\<close> returns when the slot is empty or owned, and when it
  points to live memory and the duplicate is granted. Whenever it returns, a second
  call returns the same slot and the same heap (it changes nothing); the bytes read
  through the slot are the bytes read through it before, and no block that was live
  has other bytes afterwards (a block is left alone or, when the slot was the last user
  of a shared block, freed); and a slot that was not empty ends with a data pointer,
  ownership \<open>IB_TAKE_OWNERSHIP\<close> and no shared handle. An empty or owned slot and the
  heap are returned as they are. A slot that borrows its memory is given a block of its
  own: the data pointer is the address of a new allocation, which was not live before,
  is not the borrowed block and is the data of no control block; the new block holds
  the bytes of the borrowed one; every other block is as before, except the data of the
  slot's control block when the slot was its last user; the slot's control block loses
  one user, and every other control block is as before.
\<close>

theorem imb_make_writeable_buffer_idempotent:
  assumes "heap_wf h" and "buffer_inv b"
  shows
    "((data b = None \<or> ownership b = IB_TAKE_OWNERSHIP
        \<or> (slot_bytes b h \<noteq> None \<and> alloc_ok h (requests h)))
        \<longrightarrow> (\<exists>b1 h1. imb_make_writeable_buffer b h = Inr (b1, h1))) \<and>
     (\<forall>b1 h1. imb_make_writeable_buffer b h = Inr (b1, h1) \<longrightarrow>
        imb_make_writeable_buffer b1 h1 = Inr (b1, h1)
        \<and> slot_bytes b1 h1 = slot_bytes b h
        \<and> (\<forall>a bs. blocks h a = Some bs \<longrightarrow> blocks h1 a = Some bs \<or> blocks h1 a = None)
        \<and> (data b \<noteq> None \<longrightarrow>
             data b1 \<noteq> None \<and> ownership b1 = IB_TAKE_OWNERSHIP
             \<and> implicit_sharing b1 = None)
        \<and> (data b = None \<or> ownership b = IB_TAKE_OWNERSHIP \<longrightarrow> b1 = b \<and> h1 = h)
        \<and> (\<forall>d. data b = Some d \<and> ownership b = IB_DO_NOT_TAKE_OWNERSHIP \<longrightarrow>
             b1 = \<lparr>data = Some (requests h), ownership = IB_TAKE_OWNERSHIP,
                   implicit_sharing = None\<rparr>
             \<and> requests h \<noteq> d \<and> blocks h (requests h) = None
             \<and> blocks h d \<noteq> None \<and> blocks h1 (requests h) = blocks h d
             \<and> requests h1 = Suc (requests h)
             \<and> (\<forall>a. a \<noteq> requests h \<longrightarrow>
                  blocks h1 a = blocks h a
                  \<or> (\<exists>s n. implicit_sharing b = Some s \<and> sharing h s = Some (n, a)
                        \<and> n \<le> 1 \<and> blocks h1 a = None))
             \<and> (\<forall>s n d'. sharing h1 s = Some (n, d') \<longrightarrow> d' \<noteq> requests h)
             \<and> (\<forall>s. implicit_sharing b \<noteq> Some s \<longrightarrow> sharing h1 s = sharing h s)
             \<and> (\<forall>s n d0. implicit_sharing b = Some s \<and> sharing h s = Some (n, d0) \<longrightarrow>
                  sharing h1 s = (if n \<le> 1 then None else Some (n - 1, d0)))))"
  using assms
  by (cases b)
     (auto simp: imb_make_writeable_buffer_def MEM_dupallocN_def slot_bytes_def
        buffer_inv_def remove_user_and_delete_if_last_def Let_def and_then_eq_Inr
      dest: heap_wf_live_block heap_wf_shared_block heap_wf_fresh_block
      split: option.splits ImBufOwnership.splits if_splits prod.splits)

text \<open>
  A slot that shares the block at address 0 through a control block with two users, and a
  slot that borrows the same block without a control block: each gets the new block at
  address 10 with the bytes of the old one, the old block stays, and the control block
  loses a user in the first case only.
\<close>

theorem imb_make_writeable_buffer_idempotent_witness:
  "heap_wf heap_shared \<and> buffer_inv shared_slot \<and> buffer_inv borrowed_slot
   \<and> slot_bytes shared_slot heap_shared = Some [1, 2, 3]
   \<and> blocks heap_shared 10 = None
   \<and> (\<exists>b1 h1. imb_make_writeable_buffer shared_slot heap_shared = Inr (b1, h1)
        \<and> imb_make_writeable_buffer b1 h1 = Inr (b1, h1)
        \<and> slot_bytes b1 h1 = Some [1, 2, 3]
        \<and> b1 = \<lparr>data = Some 10, ownership = IB_TAKE_OWNERSHIP, implicit_sharing = None\<rparr>
        \<and> blocks h1 10 = Some [1, 2, 3]
        \<and> blocks h1 0 = Some [1, 2, 3] \<and> sharing h1 5 = Some (1, 0))
   \<and> (\<exists>b1 h1. imb_make_writeable_buffer borrowed_slot heap_shared = Inr (b1, h1)
        \<and> imb_make_writeable_buffer b1 h1 = Inr (b1, h1)
        \<and> b1 = \<lparr>data = Some 10, ownership = IB_TAKE_OWNERSHIP, implicit_sharing = None\<rparr>
        \<and> blocks h1 10 = Some [1, 2, 3]
        \<and> blocks h1 0 = Some [1, 2, 3] \<and> sharing h1 5 = Some (2, 0))"
proof -
  have wf: "heap_wf heap_shared"
    by (auto simp: heap_wf_def heap_shared_def)
  have inv: "buffer_inv shared_slot" "buffer_inv borrowed_slot"
    by (simp_all add: buffer_inv_def shared_slot_def borrowed_slot_def)
  have bytes: "slot_bytes shared_slot heap_shared = Some [1, 2, 3]"
      "slot_bytes borrowed_slot heap_shared = Some [1, 2, 3]"
      "blocks heap_shared 0 = Some [1, 2, 3]" "blocks heap_shared 10 = None"
      "requests heap_shared = 10" "alloc_ok heap_shared 10"
      "sharing heap_shared 5 = Some (2, 0)"
    by (simp_all add: slot_bytes_def shared_slot_def borrowed_slot_def heap_shared_def)
  have slots: "data shared_slot = Some 0" "ownership shared_slot = IB_DO_NOT_TAKE_OWNERSHIP"
      "implicit_sharing shared_slot = Some 5"
      "data borrowed_slot = Some 0" "ownership borrowed_slot = IB_DO_NOT_TAKE_OWNERSHIP"
      "implicit_sharing borrowed_slot = None"
    by (simp_all add: shared_slot_def borrowed_slot_def)
  note t1 = imb_make_writeable_buffer_idempotent [OF wf inv(1)]
  note t2 = imb_make_writeable_buffer_idempotent [OF wf inv(2)]
  from t1 bytes obtain b1 h1 where
    run1: "imb_make_writeable_buffer shared_slot heap_shared = Inr (b1, h1)"
    by auto
  from t1 run1 have p1: "imb_make_writeable_buffer b1 h1 = Inr (b1, h1)"
      "slot_bytes b1 h1 = slot_bytes shared_slot heap_shared"
    by blast+
  from t1 run1 slots(1,2)
  have q1: "b1 = \<lparr>data = Some (requests heap_shared), ownership = IB_TAKE_OWNERSHIP,
                   implicit_sharing = None\<rparr>"
      "blocks h1 (requests heap_shared) = blocks heap_shared 0"
      "\<forall>a. a \<noteq> requests heap_shared \<longrightarrow>
          blocks h1 a = blocks heap_shared a
          \<or> (\<exists>s n. implicit_sharing shared_slot = Some s \<and> sharing heap_shared s = Some (n, a)
                \<and> n \<le> 1 \<and> blocks h1 a = None)"
      "\<forall>s n d0. implicit_sharing shared_slot = Some s \<and> sharing heap_shared s = Some (n, d0)
          \<longrightarrow> sharing h1 s = (if n \<le> 1 then None else Some (n - 1, d0))"
    by blast+
  from q1(3) have old1: "blocks h1 0 = Some [1, 2, 3]"
    by (auto simp: bytes slots)
  from q1(4) slots(3) bytes(7) have sh1: "sharing h1 5 = Some (1, 0)"
    by auto
  from t2 bytes obtain b2 h2 where
    run2: "imb_make_writeable_buffer borrowed_slot heap_shared = Inr (b2, h2)"
    by auto
  from t2 run2 have p2: "imb_make_writeable_buffer b2 h2 = Inr (b2, h2)"
    by blast
  from t2 run2 slots(4,5)
  have q2: "b2 = \<lparr>data = Some (requests heap_shared), ownership = IB_TAKE_OWNERSHIP,
                   implicit_sharing = None\<rparr>"
      "blocks h2 (requests heap_shared) = blocks heap_shared 0"
      "\<forall>a. a \<noteq> requests heap_shared \<longrightarrow>
          blocks h2 a = blocks heap_shared a
          \<or> (\<exists>s n. implicit_sharing borrowed_slot = Some s
                \<and> sharing heap_shared s = Some (n, a)
                \<and> n \<le> 1 \<and> blocks h2 a = None)"
      "\<forall>s. implicit_sharing borrowed_slot \<noteq> Some s \<longrightarrow> sharing h2 s = sharing heap_shared s"
    by blast+
  from q2(3) have old2: "blocks h2 0 = Some [1, 2, 3]"
    by (auto simp: bytes slots)
  from q2(4) have sh2: "sharing h2 5 = Some (2, 0)"
    by (simp add: slots bytes)
  from wf inv bytes run1 p1 q1(1,2) old1 sh1 run2 p2 q2(1,2) old2 sh2 show ?thesis
    by simp
qed

subsection \<open>Slot allocation in an image buffer\<close>

lemma alloc_slot_granted:
  fixes x y chans :: "32 word" and type_size :: "64 word"
  assumes "ibufs h a = Some ib"
    and "0 < unat chans * unat type_size" and "unat chans * unat type_size < 2 ^ 64"
    and "unat x * unat y < SIZE_MAX div (unat chans * unat type_size)"
    and "alloc_ok h (requests h)"
  shows "alloc_slot sl a x y chans type_size h
     = Inr (True,
         store a (slot_update sl
             \<lparr>data = Some (requests h), ownership = IB_TAKE_OWNERSHIP, implicit_sharing = None\<rparr>
             ib)
           (h\<lparr>blocks := (blocks h)(requests h \<mapsto>
                  replicate (unat x * unat y * unat chans * unat type_size) 0),
              requests := Suc (requests h)\<rparr>))"
  using assms(1,4,5)
  unfolding alloc_slot_def imb_alloc_buffer_def imb_alloc_pixels_cases [OF assms(2,3)]
  by (cases "slot_of sl ib") (simp add: load_live MEM_callocN_def)

lemma alloc_slot_outcome:
  "alloc_slot sl a x y chans type_size h = Inr (ok, h') \<Longrightarrow>
   \<exists>ib. ibufs h a = Some ib \<and>
     ibufs h' = (ibufs h)(a \<mapsto> slot_update sl
        (if ok then \<lparr>data = Some (requests h), ownership = IB_TAKE_OWNERSHIP,
                       implicit_sharing = None\<rparr>
         else (slot_of sl ib)\<lparr>data := None\<rparr>) ib)"
  by (auto simp: alloc_slot_def imb_alloc_buffer_def imb_alloc_pixels_def Let_def MEM_callocN_def
      and_then_eq_Inr split: if_splits prod.splits)

subsection \<open>The depth buffer helper\<close>

lemma addzbufImBuf_never_true: "addzbufImBuf ibuf h = Inr (r, h') \<Longrightarrow> \<not> r"
  by (auto simp: addzbufImBuf_def and_then_eq_Inr split: option.splits if_splits)

lemma IMB_freezbufImBuf_run:
  "ibufs h a = Some ib \<Longrightarrow>
   IMB_freezbufImBuf (Some a) h
     = Inr (store a (ib\<lparr>z_buffer := zero_buffer, flags := flags ib AND NOT IB_zbuf\<rparr>)
              (snd (imb_free_buffer (z_buffer ib) h)))"
  by (simp add: IMB_freezbufImBuf_def free_slot_run clear_flag_def modify_run)

lemma addzbufImBuf_success_path:
  assumes "ibufs h a = Some ib"
    and "unat (dim_x ib) * unat (dim_y ib) < SIZE_MAX div 4"
    and "alloc_ok h (requests h)"
  shows "addzbufImBuf (Some a) h
     = Inr (False,
         store a (ib\<lparr>z_buffer := \<lparr>data = Some (requests h), ownership = IB_TAKE_OWNERSHIP,
                                   implicit_sharing = None\<rparr>,
                     flags := (flags ib AND NOT IB_zbuf) OR IB_zbuf\<rparr>)
           ((snd (imb_free_buffer (z_buffer ib) h))
              \<lparr>blocks := (blocks (snd (imb_free_buffer (z_buffer ib) h)))(requests h \<mapsto>
                  replicate (unat (dim_x ib) * unat (dim_y ib) * 4) 0),
               requests := Suc (requests h)\<rparr>))"
  using assms
  by (simp add: addzbufImBuf_def IMB_freezbufImBuf_run load_live alloc_slot_granted
      set_flag_def modify_run)

lemma imb_addrectImBuf_deep_success_path:
  assumes "ibufs h a = Some ib" and "32 < unat (planes ib)"
    and "unat (dim_x ib) * unat (dim_y ib) < SIZE_MAX div 4"
    and "alloc_ok h (requests h)" and "alloc_ok h (Suc (requests h))"
  shows "\<exists>h' ib'. imb_addrectImBuf (Some a) h = Inr (False, h') \<and> ibufs h' a = Some ib'
      \<and> data (byte_buffer ib') = Some (requests h) \<and> flags ib' AND IB_rect \<noteq> 0
      \<and> data (z_buffer ib') = Some (Suc (requests h)) \<and> flags ib' AND IB_zbuf \<noteq> 0
      \<and> blocks h' (Suc (requests h))
          = Some (replicate (unat (dim_x ib) * unat (dim_y ib) * 4) 0)"
  using assms
  by (simp add: imb_addrectImBuf_def free_slot_run load_live alloc_slot_granted
      set_flag_def modify_run addzbufImBuf_success_path flag_set flag_other_set
      flag_other_clear)

lemma IMB_initImBuf_zbuf_false:
  "IMB_initImBuf fuel ibuf x y p f h = Inr (r, h') \<Longrightarrow> f AND IB_zbuf \<noteq> 0 \<Longrightarrow> \<not> r"
  by (auto simp: IMB_initImBuf_def and_then_eq_Inr
      dest: addzbufImBuf_never_true split: if_splits)

lemma IMB_initImBuf_zbuf_success_path:
  assumes "ibufs h a = Some old"
    and "unat x * unat y < SIZE_MAX div 4"
    and "alloc_ok h (requests h)"
  shows "\<exists>h' ib'. IMB_initImBuf fuel (Some a) x y p IB_zbuf h = Inr (False, h')
      \<and> ibufs h' a = Some ib'
      \<and> data (z_buffer ib') = Some (requests h) \<and> flags ib' AND IB_zbuf \<noteq> 0
      \<and> blocks h' (requests h) = Some (replicate (unat x * unat y * 4) 0)"
  using assms
  by (simp add: IMB_initImBuf_def nonnull_def load_live addzbufImBuf_success_path
      zero_ImBuf_def flag_set)

text \<open>
  C4. \<open>addzbufImBuf\<close> never returns true. On its success path (a live image buffer, a
  size that the guard accepts, a granted request) it returns false although the depth
  slot holds the new zero-filled block and \<open>IB_zbuf\<close> is set. So \<open>imb_addrectImBuf\<close> on
  a buffer with more than 32 planes returns false with the byte slot and the depth
  slot both allocated and flagged, and \<open>IMB_initImBuf\<close> with \<open>IB_zbuf\<close> requested never
  returns true, also when the depth slot was allocated.
\<close>

theorem addzbufImBuf_reports_failure:
  "(addzbufImBuf ibuf0 h0 = Inr (r0, h0') \<longrightarrow> \<not> r0)
   \<and> (ibufs h a = Some ib \<and> unat (dim_x ib) * unat (dim_y ib) < SIZE_MAX div 4
        \<and> alloc_ok h (requests h) \<longrightarrow>
        (\<exists>h' ib'. addzbufImBuf (Some a) h = Inr (False, h') \<and> ibufs h' a = Some ib'
           \<and> data (z_buffer ib') = Some (requests h) \<and> flags ib' AND IB_zbuf \<noteq> 0
           \<and> blocks h' (requests h)
               = Some (replicate (unat (dim_x ib) * unat (dim_y ib) * 4) 0)))
   \<and> (ibufs h a = Some ib \<and> 32 < unat (planes ib)
        \<and> unat (dim_x ib) * unat (dim_y ib) < SIZE_MAX div 4
        \<and> alloc_ok h (requests h) \<and> alloc_ok h (Suc (requests h)) \<longrightarrow>
        (\<exists>h' ib'. imb_addrectImBuf (Some a) h = Inr (False, h') \<and> ibufs h' a = Some ib'
           \<and> data (byte_buffer ib') = Some (requests h) \<and> flags ib' AND IB_rect \<noteq> 0
           \<and> data (z_buffer ib') = Some (Suc (requests h)) \<and> flags ib' AND IB_zbuf \<noteq> 0))
   \<and> (IMB_initImBuf fuel ibuf1 x1 y1 p1 f1 h1 = Inr (r1, h1') \<and> f1 AND IB_zbuf \<noteq> 0 \<longrightarrow> \<not> r1)
   \<and> (ibufs h a = Some ib \<and> unat x * unat y < SIZE_MAX div 4 \<and> alloc_ok h (requests h) \<longrightarrow>
        (\<exists>h' ib'. IMB_initImBuf fuel (Some a) x y p IB_zbuf h = Inr (False, h')
           \<and> ibufs h' a = Some ib'
           \<and> data (z_buffer ib') = Some (requests h) \<and> flags ib' AND IB_zbuf \<noteq> 0))"
proof (intro conjI impI)
  assume "addzbufImBuf ibuf0 h0 = Inr (r0, h0')"
  then show "\<not> r0" by (rule addzbufImBuf_never_true)
next
  assume "ibufs h a = Some ib \<and> unat (dim_x ib) * unat (dim_y ib) < SIZE_MAX div 4
      \<and> alloc_ok h (requests h)"
  then show "\<exists>h' ib'. addzbufImBuf (Some a) h = Inr (False, h') \<and> ibufs h' a = Some ib'
      \<and> data (z_buffer ib') = Some (requests h) \<and> flags ib' AND IB_zbuf \<noteq> 0
      \<and> blocks h' (requests h) = Some (replicate (unat (dim_x ib) * unat (dim_y ib) * 4) 0)"
    by (simp add: addzbufImBuf_success_path flag_set)
next
  assume "ibufs h a = Some ib \<and> 32 < unat (planes ib)
      \<and> unat (dim_x ib) * unat (dim_y ib) < SIZE_MAX div 4
      \<and> alloc_ok h (requests h) \<and> alloc_ok h (Suc (requests h))"
  then show "\<exists>h' ib'. imb_addrectImBuf (Some a) h = Inr (False, h') \<and> ibufs h' a = Some ib'
      \<and> data (byte_buffer ib') = Some (requests h) \<and> flags ib' AND IB_rect \<noteq> 0
      \<and> data (z_buffer ib') = Some (Suc (requests h)) \<and> flags ib' AND IB_zbuf \<noteq> 0"
    using imb_addrectImBuf_deep_success_path [of h a ib] by auto
next
  assume "IMB_initImBuf fuel ibuf1 x1 y1 p1 f1 h1 = Inr (r1, h1') \<and> f1 AND IB_zbuf \<noteq> 0"
  then show "\<not> r1" using IMB_initImBuf_zbuf_false by blast
next
  assume "ibufs h a = Some ib \<and> unat x * unat y < SIZE_MAX div 4 \<and> alloc_ok h (requests h)"
  then show "\<exists>h' ib'. IMB_initImBuf fuel (Some a) x y p IB_zbuf h = Inr (False, h')
      \<and> ibufs h' a = Some ib'
      \<and> data (z_buffer ib') = Some (requests h) \<and> flags ib' AND IB_zbuf \<noteq> 0"
    using IMB_initImBuf_zbuf_success_path [of h a ib x y fuel p] by auto
qed

theorem addzbufImBuf_reports_failure_witness:
  "(\<exists>h' ib'. addzbufImBuf (Some 0) (heap_one deep_image) = Inr (False, h')
      \<and> ibufs h' 0 = Some ib' \<and> data (z_buffer ib') = Some 1
      \<and> flags ib' AND IB_zbuf \<noteq> 0 \<and> blocks h' 1 = Some (replicate 24 0))
   \<and> (\<exists>h' ib'. imb_addrectImBuf (Some 0) (heap_one deep_image) = Inr (False, h')
      \<and> ibufs h' 0 = Some ib' \<and> data (byte_buffer ib') = Some 1
      \<and> flags ib' AND IB_rect \<noteq> 0 \<and> data (z_buffer ib') = Some 2
      \<and> flags ib' AND IB_zbuf \<noteq> 0)
   \<and> (\<exists>h' ib'. IMB_initImBuf 0 (Some 0) 2 3 32 IB_zbuf (heap_one small_image) = Inr (False, h')
      \<and> ibufs h' 0 = Some ib' \<and> data (z_buffer ib') = Some 1
      \<and> flags ib' AND IB_zbuf \<noteq> 0)"
proof -
  have live: "ibufs (heap_one deep_image) 0 = Some deep_image"
      "ibufs (heap_one small_image) 0 = Some small_image"
    by (simp_all add: heap_one_def)
  have size: "unat (dim_x deep_image) * unat (dim_y deep_image) < SIZE_MAX div 4"
      "unat (dim_x deep_image) * unat (dim_y deep_image) * 4 = 24"
      "unat (2 :: 32 word) * unat (3 :: 32 word) < SIZE_MAX div 4"
      "32 < unat (planes deep_image)"
    by (simp_all add: deep_image_def zero_ImBuf_def SIZE_MAX_def)
  have grant: "alloc_ok (heap_one deep_image) (requests (heap_one deep_image))"
      "alloc_ok (heap_one deep_image) (Suc (requests (heap_one deep_image)))"
      "alloc_ok (heap_one small_image) (requests (heap_one small_image))"
      "requests (heap_one deep_image) = 1" "requests (heap_one small_image) = 1"
    by (simp_all add: heap_one_def)
  note deep = addzbufImBuf_reports_failure
    [where h = "heap_one deep_image" and a = 0 and ib = deep_image and x = 2 and y = 3
       and fuel = 0 and p = 32]
  note small = addzbufImBuf_reports_failure
    [where h = "heap_one small_image" and a = 0 and ib = small_image and x = 2 and y = 3
       and fuel = 0 and p = 32]
  from deep live size grant
  have one: "\<exists>h' ib'. addzbufImBuf (Some 0) (heap_one deep_image) = Inr (False, h')
      \<and> ibufs h' 0 = Some ib' \<and> data (z_buffer ib') = Some 1
      \<and> flags ib' AND IB_zbuf \<noteq> 0 \<and> blocks h' 1 = Some (replicate 24 0)"
    by simp
  from deep live size grant
  have two: "\<exists>h' ib'. imb_addrectImBuf (Some 0) (heap_one deep_image) = Inr (False, h')
      \<and> ibufs h' 0 = Some ib' \<and> data (byte_buffer ib') = Some 1
      \<and> flags ib' AND IB_rect \<noteq> 0 \<and> data (z_buffer ib') = Some 2
      \<and> flags ib' AND IB_zbuf \<noteq> 0"
    by (simp add: numeral_2_eq_2)
  from small live size grant
  have three: "\<exists>h' ib'. IMB_initImBuf 0 (Some 0) 2 3 32 IB_zbuf (heap_one small_image)
        = Inr (False, h')
      \<and> ibufs h' 0 = Some ib' \<and> data (z_buffer ib') = Some 1
      \<and> flags ib' AND IB_zbuf \<noteq> 0"
    by simp
  from one two three show ?thesis by blast
qed

subsection \<open>Null pointers\<close>

text \<open>
  C5. As the claim states it, every public entry point is a no-op on a null pointer.
  \<open>IMB_refImBuf\<close>, the steal functions, the make-writable functions and the assign
  functions dereference \<open>ibuf\<close> without a test.
\<close>

theorem null_pointer_counterexample:
  "IMB_refImBuf None heap0 = Inl NullDereference
   \<and> IMB_steal_byte_buffer None heap0 = Inl NullDereference
   \<and> IMB_steal_float_buffer None heap0 = Inl NullDereference
   \<and> IMB_steal_encoded_buffer None heap0 = Inl NullDereference
   \<and> IMB_make_writable_byte_buffer None heap0 = Inl NullDereference
   \<and> IMB_make_writable_float_buffer None heap0 = Inl NullDereference
   \<and> IMB_assign_shared_byte_buffer None None None heap0 = Inl NullDereference
   \<and> IMB_assign_shared_float_buffer None None None heap0 = Inl NullDereference
   \<and> IMB_assign_shared_float_z_buffer None None None heap0 = Inl NullDereference
   \<and> IMB_assign_byte_buffer None None IB_TAKE_OWNERSHIP heap0 = Inl NullDereference
   \<and> IMB_assign_float_buffer None None IB_TAKE_OWNERSHIP heap0 = Inl NullDereference
   \<and> IMB_assign_z_buffer None None IB_TAKE_OWNERSHIP heap0 = Inl NullDereference
   \<and> IMB_assign_float_z_buffer None None IB_TAKE_OWNERSHIP heap0 = Inl NullDereference"
  by (simp add: IMB_refImBuf_def IMB_steal_byte_buffer_def IMB_steal_float_buffer_def
      IMB_steal_encoded_buffer_def IMB_make_writable_byte_buffer_def
      IMB_make_writable_float_buffer_def make_writeable_slot_def
      IMB_assign_shared_byte_buffer_def IMB_assign_shared_float_buffer_def
      IMB_assign_shared_float_z_buffer_def assign_shared_slot_def
      IMB_assign_byte_buffer_def IMB_assign_float_buffer_def IMB_assign_z_buffer_def
      IMB_assign_float_z_buffer_def assign_slot_def nonnull_def)

lemma IMB_freeImBuf_null: "IMB_freeImBuf fuel None h = Inr h"
  by (cases fuel) (simp_all add: IMB_freeImBuf_body_def)

text \<open>
  C5, amended. Release (\<open>IMB_freeImBuf\<close>), \<open>IMB_makeSingleUser\<close>, \<open>IMB_dupImBuf\<close>, the
  functions that free slots and the functions that allocate slots return at once on a
  null pointer and leave the heap as it is; those with a result return false or null.
\<close>

theorem null_pointer_no_op:
  "IMB_freeImBuf fuel None h = Inr h
   \<and> IMB_makeSingleUser fuel None h = Inr (None, h)
   \<and> IMB_dupImBuf fuel None h = Inr (None, h)
   \<and> imb_freerectfloatImBuf free_child None h = Inr h
   \<and> imb_freerectImBuf free_child None h = Inr h
   \<and> freeencodedbufferImBuf None h = Inr h
   \<and> IMB_freezbufImBuf None h = Inr h
   \<and> IMB_freezbuffloatImBuf None h = Inr h
   \<and> imb_freerectImbuf_all free_child None h = Inr h
   \<and> addzbufImBuf None h = Inr (False, h)
   \<and> addzbuffloatImBuf None h = Inr (False, h)
   \<and> imb_addencodedbufferImBuf None h = Inr (False, h)
   \<and> imb_enlargeencodedbufferImBuf None h = Inr (False, h)
   \<and> imb_addrectfloatImBuf fuel None chans h = Inr (False, h)
   \<and> imb_addrectImBuf None h = Inr (False, h)"
  by (simp add: IMB_freeImBuf_null IMB_makeSingleUser_def IMB_dupImBuf_def
      imb_freerectfloatImBuf_def imb_freerectImBuf_def freeencodedbufferImBuf_def
      IMB_freezbufImBuf_def IMB_freezbuffloatImBuf_def imb_freerectImbuf_all_def
      addzbufImBuf_def addzbuffloatImBuf_def imb_addencodedbufferImBuf_def
      imb_enlargeencodedbufferImBuf_def imb_addrectfloatImBuf_def imb_addrectImBuf_def)

subsection \<open>Growth of the encoded buffer\<close>

lemma enlarged_size_max: "enlarged_size cap = max (2 * cap) 10000"
  by (auto simp: enlarged_size_def max_def)

lemma enlarged_size_no_wrap:
  assumes "2 * unat cap < 2 ^ 32"
  shows "unat (enlarged_size cap) = max (2 * unat cap) 10000"
proof -
  have "unat (2 * cap) = 2 * unat cap"
    using assms by (simp add: unat_word_ariths)
  then show ?thesis
    by (auto simp: enlarged_size_def word_less_nat_alt max_def)
qed

lemma enlarged_size_zero [simp]: "enlarged_size 0 = 10000"
  by (simp add: enlarged_size_def)

lemma enlarged_size_10000 [simp]: "enlarged_size 10000 = 20000"
  by (simp add: enlarged_size_def)

lemma enlarge_guard:
  fixes n :: "32 word"
  shows "unat n * unat (1 :: 32 word) < SIZE_MAX div (unat (1 :: 32 word) * unat (1 :: 64 word))"
proof -
  have "unat n < 2 ^ 32"
    using unsigned_less [of n, where ?'a = nat] by simp
  then show ?thesis by (simp add: SIZE_MAX_def)
qed

lemma enlarge_alloc:
  fixes n :: "32 word"
  assumes "alloc_ok h (requests h)"
  shows "imb_alloc_buffer b n 1 1 1 h
     = Inr (True, \<lparr>data = Some (requests h), ownership = IB_TAKE_OWNERSHIP,
                   implicit_sharing = None\<rparr>,
            h\<lparr>blocks := (blocks h)(requests h \<mapsto> replicate (unat n) 0),
              requests := Suc (requests h)\<rparr>)"
  unfolding imb_alloc_buffer_def
  using enlarge_guard [of n] assms
  by (subst imb_alloc_pixels_cases) (simp_all add: MEM_callocN_def)

lemma enlarge_alloc_refused:
  fixes n :: "32 word"
  assumes "\<not> alloc_ok h (requests h)"
  shows "imb_alloc_buffer b n 1 1 1 h
     = Inr (False, b\<lparr>data := None\<rparr>, h\<lparr>requests := Suc (requests h)\<rparr>)"
  unfolding imb_alloc_buffer_def
  using enlarge_guard [of n] assms
  by (subst imb_alloc_pixels_cases) (simp_all add: MEM_callocN_def)

lemma enlarge_empty_run:
  assumes "ibufs h a = Some ib" and "data (encoded_buffer ib) = None"
    and "\<not> encoded_buffer_size ib < encoded_size ib"
    and "alloc_ok h (requests h)"
  shows "imb_enlargeencodedbufferImBuf (Some a) h
     = Inr (True,
         store a (ib\<lparr>encoded_size := 0,
                     encoded_buffer := \<lparr>data = Some (requests h), ownership = IB_TAKE_OWNERSHIP,
                                        implicit_sharing = None\<rparr>,
                     encoded_buffer_size := enlarged_size (encoded_buffer_size ib),
                     flags := flags ib OR IB_mem\<rparr>)
           (snd (imb_free_buffer (encoded_buffer ib)
              (h\<lparr>blocks := (blocks h)(requests h \<mapsto>
                     replicate (unat (enlarged_size (encoded_buffer_size ib))) 0),
                 requests := Suc (requests h)\<rparr>))))"
  using assms
  by (simp add: imb_enlargeencodedbufferImBuf_def load_live Let_def enlarge_alloc
      modify_run free_slot_run enlarged_size_def zero_buffer_def)

lemma enlarge_copy_run:
  assumes "ibufs h a = Some ib" and "data (encoded_buffer ib) = Some d"
    and "blocks h d = Some bs" and "d \<noteq> requests h"
    and "\<not> encoded_buffer_size ib < encoded_size ib"
    and "unat (encoded_size ib) \<le> length bs"
    and "unat (encoded_size ib) \<le> unat (enlarged_size (encoded_buffer_size ib))"
    and "alloc_ok h (requests h)"
  shows "imb_enlargeencodedbufferImBuf (Some a) h
     = Inr (True,
         store a (ib\<lparr>encoded_buffer := \<lparr>data = Some (requests h), ownership = IB_TAKE_OWNERSHIP,
                                        implicit_sharing = None\<rparr>,
                     encoded_buffer_size := enlarged_size (encoded_buffer_size ib),
                     flags := flags ib OR IB_mem\<rparr>)
           (snd (imb_free_buffer (encoded_buffer ib)
              (h\<lparr>requests := Suc (requests h),
                 blocks := (blocks h)(requests h \<mapsto>
                     take (unat (encoded_size ib)) bs
                       @ replicate (unat (enlarged_size (encoded_buffer_size ib))
                                     - unat (encoded_size ib)) 0)\<rparr>))))"
  using assms
  by (simp add: imb_enlargeencodedbufferImBuf_def load_live Let_def enlarge_alloc
      modify_run free_slot_run enlarged_size_def zero_buffer_def memcpy_def)

text \<open>
  C10. For a live image buffer in a well-formed heap whose encoded slot has a null data
  pointer, a growth request that reaches the allocator (the in-use size does not exceed
  the capacity) and is granted returns true: the in-use size is zero, the slot holds
  a fresh block of zero bytes, owned and without shared handle, whose length is the new
  capacity; the capacity is \<open>max (2 * old) 10000\<close> in the \<open>uint\<close> arithmetic of the
  source, which is the mathematical maximum when the doubling does not wrap; and
  \<open>IB_mem\<close> is set.
\<close>

theorem enlarge_empty_encoded_buffer:
  assumes "heap_wf h" and "ibufs h a = Some ib" and "data (encoded_buffer ib) = None"
    and "\<not> encoded_buffer_size ib < encoded_size ib"
    and "alloc_ok h (requests h)"
  shows "\<exists>h' ib'. imb_enlargeencodedbufferImBuf (Some a) h = Inr (True, h')
      \<and> ibufs h' a = Some ib'
      \<and> encoded_size ib' = 0
      \<and> encoded_buffer ib'
          = \<lparr>data = Some (requests h), ownership = IB_TAKE_OWNERSHIP, implicit_sharing = None\<rparr>
      \<and> blocks h (requests h) = None
      \<and> blocks h' (requests h) = Some (replicate (unat (encoded_buffer_size ib')) 0)
      \<and> encoded_buffer_size ib' = max (2 * encoded_buffer_size ib) 10000
      \<and> (2 * unat (encoded_buffer_size ib) < 2 ^ 32 \<longrightarrow>
           unat (encoded_buffer_size ib') = max (2 * unat (encoded_buffer_size ib)) 10000)
      \<and> flags ib' AND IB_mem \<noteq> 0"
proof -
  have "blocks (snd (imb_free_buffer (encoded_buffer ib)
            (h\<lparr>blocks := (blocks h)(requests h \<mapsto>
                   replicate (unat (enlarged_size (encoded_buffer_size ib))) 0),
               requests := Suc (requests h)\<rparr>))) (requests h)
        = Some (replicate (unat (enlarged_size (encoded_buffer_size ib))) 0)"
    using assms(1,3) by (subst free_buffer_keeps_fresh) simp_all
  then show ?thesis
    using assms enlarged_size_no_wrap [of "encoded_buffer_size ib"]
    by (simp add: enlarge_empty_run heap_wf_fresh_block enlarged_size_max [symmetric] flag_set)
qed

theorem enlarge_empty_encoded_buffer_witness:
  "heap_wf (heap_one small_image)
   \<and> (\<exists>h' ib'. imb_enlargeencodedbufferImBuf (Some 0) (heap_one small_image) = Inr (True, h')
        \<and> ibufs h' 0 = Some ib' \<and> encoded_size ib' = 0
        \<and> encoded_buffer ib'
            = \<lparr>data = Some 1, ownership = IB_TAKE_OWNERSHIP, implicit_sharing = None\<rparr>
        \<and> blocks h' 1 = Some (replicate 10000 0)
        \<and> encoded_buffer_size ib' = 10000
        \<and> flags ib' AND IB_mem \<noteq> 0)"
proof -
  have wf: "heap_wf (heap_one small_image)"
    by (auto simp: heap_wf_def heap_one_def)
  have live: "ibufs (heap_one small_image) 0 = Some small_image"
    by (simp add: heap_one_def)
  have empty: "data (encoded_buffer small_image) = None"
      "\<not> encoded_buffer_size small_image < encoded_size small_image"
      "encoded_buffer_size small_image = 0"
    by (simp_all add: small_image_def zero_ImBuf_def zero_buffer_def)
  have grant: "alloc_ok (heap_one small_image) (requests (heap_one small_image))"
      "requests (heap_one small_image) = 1"
    by (simp_all add: heap_one_def)
  from enlarge_empty_encoded_buffer [OF wf live empty(1,2) grant(1)] wf
  show ?thesis
    by (auto simp add: grant(2) empty(3))
qed

lemma enlarge_refused:
  "imb_enlargeencodedbufferImBuf ibuf h = Inr (False, h') \<Longrightarrow>
     ibufs h' = ibufs h \<and> blocks h' = blocks h \<and> sharing h' = sharing h
     \<and> externals h' = externals h \<and> alloc_ok h' = alloc_ok h"
  by (auto simp: imb_enlargeencodedbufferImBuf_def and_then_eq_Inr Let_def
        imb_alloc_buffer_def imb_alloc_pixels_def MEM_callocN_def
      split: option.splits if_splits prod.splits)

lemma enlarge_parameter_error:
  "ibufs h a = Some ib \<Longrightarrow> encoded_buffer_size ib < encoded_size ib \<Longrightarrow>
     imb_enlargeencodedbufferImBuf (Some a) h = Inr (False, h)"
  by (simp add: imb_enlargeencodedbufferImBuf_def load_live)

lemma enlarge_preserves_bytes:
  assumes "heap_wf h" and "ibufs h a = Some ib"
    and "imb_enlargeencodedbufferImBuf (Some a) h = Inr (True, h')"
    and "data (encoded_buffer ib) = Some d" and "blocks h d = Some bs"
  shows "\<exists>ib' bs'. ibufs h' a = Some ib' \<and> encoded_size ib' = encoded_size ib
      \<and> data (encoded_buffer ib') = Some (requests h)
      \<and> blocks h' (requests h) = Some bs'
      \<and> unat (encoded_size ib) \<le> length bs
      \<and> take (unat (encoded_size ib)) bs' = take (unat (encoded_size ib)) bs
      \<and> length bs' = unat (encoded_buffer_size ib')
      \<and> encoded_buffer_size ib' = max (2 * encoded_buffer_size ib) 10000"
proof -
  have ne: "d \<noteq> requests h"
    using assms(1,5) by (rule heap_wf_live_block)
  have ok: "alloc_ok h (requests h)"
  proof (rule ccontr)
    assume "\<not> alloc_ok h (requests h)"
    then show False
      using assms(2,3)
      by (simp add: imb_enlargeencodedbufferImBuf_def load_live Let_def enlarge_alloc_refused
          split: if_splits)
  qed
  have par: "\<not> encoded_buffer_size ib < encoded_size ib"
    using assms(2,3) by (auto simp: imb_enlargeencodedbufferImBuf_def load_live)
  have fits: "unat (encoded_size ib) \<le> length bs"
      "unat (encoded_size ib) \<le> unat (enlarged_size (encoded_buffer_size ib))"
    using assms(2,3,4,5) ok par ne
    by (simp_all add: imb_enlargeencodedbufferImBuf_def load_live Let_def enlarge_alloc
        memcpy_def enlarged_size_def split: if_splits)
  have fresh: "blocks (snd (imb_free_buffer (encoded_buffer ib) H)) (requests h)
      = blocks H (requests h)" if "sharing H = sharing h" for H
    using assms(1) _ that by (rule free_buffer_keeps_fresh) (simp add: assms(4) ne)
  note run = enlarge_copy_run [OF assms(2,4,5) ne par fits ok]
  from run assms(3) show ?thesis
    using fits by (auto simp: fresh enlarged_size_max)
qed

lemma enlarge_first:
  assumes "heap_wf h" and "ibufs h a = Some ib"
    and "encoded_buffer_size ib = 0" and "encoded_size ib = 0"
    and "data (encoded_buffer ib) = None \<or> slot_bytes (encoded_buffer ib) h \<noteq> None"
    and "alloc_ok h (requests h)"
  shows "\<exists>h1 ib1. imb_enlargeencodedbufferImBuf (Some a) h = Inr (True, h1)
      \<and> ibufs h1 a = Some ib1 \<and> encoded_buffer_size ib1 = 10000 \<and> encoded_size ib1 = 0
      \<and> encoded_buffer ib1
          = \<lparr>data = Some (requests h), ownership = IB_TAKE_OWNERSHIP, implicit_sharing = None\<rparr>
      \<and> blocks h1 (requests h) = Some (replicate 10000 0)
      \<and> requests h1 = Suc (requests h) \<and> alloc_ok h1 = alloc_ok h"
proof (cases "data (encoded_buffer ib)")
  case None
  have "blocks (snd (imb_free_buffer (encoded_buffer ib) H)) (requests h)
      = blocks H (requests h)" if "sharing H = sharing h" for H
    using assms(1) _ that by (rule free_buffer_keeps_fresh) (simp add: None)
  then show ?thesis
    using assms None by (simp add: enlarge_empty_run)
next
  case (Some d)
  with assms(5) obtain bs where bs: "blocks h d = Some bs"
    by (auto simp: slot_bytes_def)
  have ne: "d \<noteq> requests h"
    using assms(1) bs by (rule heap_wf_live_block)
  have "blocks (snd (imb_free_buffer (encoded_buffer ib) H)) (requests h)
      = blocks H (requests h)" if "sharing H = sharing h" for H
    using assms(1) _ that by (rule free_buffer_keeps_fresh) (simp add: Some ne)
  then show ?thesis
    using assms Some bs ne by (simp add: enlarge_copy_run)
qed

lemma enlarge_second:
  assumes "ibufs h1 a = Some ib1"
    and "encoded_buffer ib1
          = \<lparr>data = Some d, ownership = IB_TAKE_OWNERSHIP, implicit_sharing = None\<rparr>"
    and "encoded_buffer_size ib1 = 10000" and "unat (encoded_size ib1) \<le> 10000"
    and "blocks h1 d = Some bs" and "unat (encoded_size ib1) \<le> length bs"
    and "d \<noteq> requests h1" and "alloc_ok h1 (requests h1)"
  shows "\<exists>h2 ib2 bs2. imb_enlargeencodedbufferImBuf (Some a) h1 = Inr (True, h2)
      \<and> ibufs h2 a = Some ib2 \<and> encoded_buffer_size ib2 = 20000
      \<and> encoded_size ib2 = encoded_size ib1
      \<and> data (encoded_buffer ib2) = Some (requests h1)
      \<and> blocks h2 (requests h1) = Some bs2
      \<and> take (unat (encoded_size ib1)) bs2 = take (unat (encoded_size ib1)) bs
      \<and> length bs2 = 20000"
proof -
  have par: "\<not> encoded_buffer_size ib1 < encoded_size ib1"
    using assms(3,4) by (simp add: word_less_nat_alt)
  have d: "data (encoded_buffer ib1) = Some d"
    by (simp add: assms(2))
  have fits: "unat (encoded_size ib1) \<le> unat (enlarged_size (encoded_buffer_size ib1))"
    using assms(4) by (simp add: assms(3))
  note run = enlarge_copy_run [OF assms(1) d assms(5,7) par assms(6) fits assms(8)]
  show ?thesis
    using assms(4,6,7)
    by (simp add: run imb_free_buffer_blocks assms(2,3))
qed

lemma enlarge_written:
  assumes "heap_wf h" and "ibufs h a = Some ib"
    and "data (encoded_buffer ib) = Some d" and "blocks h d = Some bs"
    and "\<not> encoded_buffer_size ib < encoded_size ib"
    and "unat (encoded_size ib) \<le> length bs"
    and "2 * unat (encoded_buffer_size ib) < 2 ^ 32"
    and "alloc_ok h (requests h)"
  shows "\<exists>h' ib' bs'. imb_enlargeencodedbufferImBuf (Some a) h = Inr (True, h')
      \<and> ibufs h' a = Some ib' \<and> encoded_size ib' = encoded_size ib
      \<and> encoded_buffer ib'
          = \<lparr>data = Some (requests h), ownership = IB_TAKE_OWNERSHIP, implicit_sharing = None\<rparr>
      \<and> blocks h (requests h) = None
      \<and> blocks h' (requests h) = Some bs'
      \<and> take (unat (encoded_size ib)) bs' = take (unat (encoded_size ib)) bs
      \<and> length bs' = unat (encoded_buffer_size ib')
      \<and> unat (encoded_buffer_size ib') = max (2 * unat (encoded_buffer_size ib)) 10000
      \<and> requests h' = Suc (requests h)"
proof -
  have ne: "d \<noteq> requests h"
    using assms(1,4) by (rule heap_wf_live_block)
  have "unat (encoded_size ib) \<le> unat (encoded_buffer_size ib)"
    using assms(5) by (simp add: word_less_nat_alt)
  then have fits: "unat (encoded_size ib) \<le> unat (enlarged_size (encoded_buffer_size ib))"
    by (simp add: enlarged_size_no_wrap [OF assms(7)])
  have fresh: "blocks (snd (imb_free_buffer (encoded_buffer ib) H)) (requests h)
      = blocks H (requests h)" if "sharing H = sharing h" for H
    using assms(1) _ that by (rule free_buffer_keeps_fresh) (simp add: assms(3) ne)
  note run = enlarge_copy_run [OF assms(2,3,4) ne assms(5,6) fits assms(8)]
  show ?thesis
    using fits assms(6)
    by (simp add: run fresh enlarged_size_no_wrap [OF assms(7)]
        heap_wf_fresh_block [OF assms(1)])
qed

lemma enlarge_alloc_refused_run:
  assumes "ibufs h a = Some ib" and "\<not> encoded_buffer_size ib < encoded_size ib"
    and "\<not> alloc_ok h (requests h)"
  shows "imb_enlargeencodedbufferImBuf (Some a) h
     = Inr (False, h\<lparr>requests := Suc (requests h)\<rparr>)"
  using assms
  by (simp add: imb_enlargeencodedbufferImBuf_def load_live Let_def enlarge_alloc_refused)

text \<open>
  C6. For a live image buffer in a well-formed heap.
  From capacity 0 (and so in-use size 0), with an encoded slot that is empty or points
  to live memory, two successive granted calls of \<open>imb_enlargeencodedbufferImBuf\<close>
  return true, with capacity 10000 after the first and 20000 after the second; and when
  the caller writes any 10000 bytes into the block of the first growth and sets any
  in-use size up to 10000 before the second call, the second call returns true with
  capacity 20000, the same in-use size, and a new block of 20000 bytes that starts with
  the bytes in use.
  A call on a slot that points to a block of which the in-use size is a part, with an
  in-use size within the capacity, a doubling that does not wrap and a granted
  allocation, returns true: the in-use size is unchanged, the slot owns a new block,
  as long as the new capacity \<open>max (2 * old) 10000\<close>, whose first in-use-size bytes are
  those of the old block. Whenever a call returns true on a slot that pointed to a
  block, the in-use bytes are preserved in that way.
  When the in-use size exceeds the capacity the call returns false and the heap is the
  same; when the allocator refuses the request the call returns false and only the
  request counter of the allocator has advanced; and whenever a call returns false, the
  image buffers, the blocks, the shared control blocks and the collaborators' objects
  are all as before.
\<close>

theorem enlarge_encoded_buffer_growth:
  assumes "heap_wf h" and "ibufs h a = Some ib"
  shows
    "(encoded_buffer_size ib = 0 \<and> encoded_size ib = 0
        \<and> (data (encoded_buffer ib) = None \<or> slot_bytes (encoded_buffer ib) h \<noteq> None)
        \<and> alloc_ok h (requests h) \<and> alloc_ok h (Suc (requests h)) \<longrightarrow>
        (\<exists>h1 ib1 h2 ib2.
           imb_enlargeencodedbufferImBuf (Some a) h = Inr (True, h1)
           \<and> ibufs h1 a = Some ib1 \<and> encoded_buffer_size ib1 = 10000
           \<and> imb_enlargeencodedbufferImBuf (Some a) h1 = Inr (True, h2)
           \<and> ibufs h2 a = Some ib2 \<and> encoded_buffer_size ib2 = 20000))
     \<and> (encoded_buffer_size ib = 0 \<and> encoded_size ib = 0
        \<and> (data (encoded_buffer ib) = None \<or> slot_bytes (encoded_buffer ib) h \<noteq> None)
        \<and> alloc_ok h (requests h) \<and> alloc_ok h (Suc (requests h)) \<longrightarrow>
        (\<exists>h1 ib1.
           imb_enlargeencodedbufferImBuf (Some a) h = Inr (True, h1)
           \<and> ibufs h1 a = Some ib1 \<and> encoded_buffer_size ib1 = 10000
           \<and> encoded_size ib1 = 0 \<and> data (encoded_buffer ib1) = Some (requests h)
           \<and> blocks h1 (requests h) = Some (replicate 10000 0)
           \<and> (\<forall>n bs. unat n \<le> 10000 \<and> length bs = 10000 \<longrightarrow>
                (\<exists>h2 ib2 bs2.
                   imb_enlargeencodedbufferImBuf (Some a)
                       (store a (ib1\<lparr>encoded_size := n\<rparr>)
                          (h1\<lparr>blocks := (blocks h1)(requests h \<mapsto> bs)\<rparr>))
                     = Inr (True, h2)
                   \<and> ibufs h2 a = Some ib2 \<and> encoded_buffer_size ib2 = 20000
                   \<and> encoded_size ib2 = n
                   \<and> data (encoded_buffer ib2) = Some (Suc (requests h))
                   \<and> blocks h2 (Suc (requests h)) = Some bs2
                   \<and> take (unat n) bs2 = take (unat n) bs
                   \<and> length bs2 = 20000))))
     \<and> (\<forall>d bs. data (encoded_buffer ib) = Some d \<and> blocks h d = Some bs
           \<and> \<not> encoded_buffer_size ib < encoded_size ib
           \<and> unat (encoded_size ib) \<le> length bs
           \<and> 2 * unat (encoded_buffer_size ib) < 2 ^ 32
           \<and> alloc_ok h (requests h) \<longrightarrow>
           (\<exists>h' ib' bs'. imb_enlargeencodedbufferImBuf (Some a) h = Inr (True, h')
              \<and> ibufs h' a = Some ib' \<and> encoded_size ib' = encoded_size ib
              \<and> encoded_buffer ib'
                  = \<lparr>data = Some (requests h), ownership = IB_TAKE_OWNERSHIP,
                     implicit_sharing = None\<rparr>
              \<and> blocks h (requests h) = None
              \<and> blocks h' (requests h) = Some bs'
              \<and> take (unat (encoded_size ib)) bs' = take (unat (encoded_size ib)) bs
              \<and> length bs' = unat (encoded_buffer_size ib')
              \<and> unat (encoded_buffer_size ib') = max (2 * unat (encoded_buffer_size ib)) 10000
              \<and> requests h' = Suc (requests h)))
     \<and> (\<forall>h' d bs. imb_enlargeencodedbufferImBuf (Some a) h = Inr (True, h')
           \<and> data (encoded_buffer ib) = Some d \<and> blocks h d = Some bs \<longrightarrow>
           (\<exists>ib' d' bs'. ibufs h' a = Some ib' \<and> encoded_size ib' = encoded_size ib
              \<and> data (encoded_buffer ib') = Some d' \<and> blocks h' d' = Some bs'
              \<and> unat (encoded_size ib) \<le> length bs
              \<and> take (unat (encoded_size ib)) bs' = take (unat (encoded_size ib)) bs
              \<and> length bs' = unat (encoded_buffer_size ib')
              \<and> encoded_buffer_size ib' = max (2 * encoded_buffer_size ib) 10000))
     \<and> (encoded_buffer_size ib < encoded_size ib \<longrightarrow>
          imb_enlargeencodedbufferImBuf (Some a) h = Inr (False, h))
     \<and> (\<not> encoded_buffer_size ib < encoded_size ib \<and> \<not> alloc_ok h (requests h) \<longrightarrow>
          imb_enlargeencodedbufferImBuf (Some a) h
            = Inr (False, h\<lparr>requests := Suc (requests h)\<rparr>))
     \<and> (\<forall>h'. imb_enlargeencodedbufferImBuf (Some a) h = Inr (False, h') \<longrightarrow>
          ibufs h' = ibufs h \<and> blocks h' = blocks h \<and> sharing h' = sharing h
          \<and> externals h' = externals h)"
proof (intro conjI impI allI)
  assume zero: "encoded_buffer_size ib = 0 \<and> encoded_size ib = 0
      \<and> (data (encoded_buffer ib) = None \<or> slot_bytes (encoded_buffer ib) h \<noteq> None)
      \<and> alloc_ok h (requests h) \<and> alloc_ok h (Suc (requests h))"
  then obtain h1 ib1 where first:
      "imb_enlargeencodedbufferImBuf (Some a) h = Inr (True, h1)"
      "ibufs h1 a = Some ib1" "encoded_buffer_size ib1 = 10000" "encoded_size ib1 = 0"
      "encoded_buffer ib1
          = \<lparr>data = Some (requests h), ownership = IB_TAKE_OWNERSHIP, implicit_sharing = None\<rparr>"
      "blocks h1 (requests h) = Some (replicate 10000 0)"
      "requests h1 = Suc (requests h)" "alloc_ok h1 = alloc_ok h"
    using enlarge_first [OF assms, of] by blast
  have "\<exists>h2 ib2 bs2. imb_enlargeencodedbufferImBuf (Some a) h1 = Inr (True, h2)
      \<and> ibufs h2 a = Some ib2 \<and> encoded_buffer_size ib2 = 20000
      \<and> encoded_size ib2 = encoded_size ib1
      \<and> data (encoded_buffer ib2) = Some (requests h1)
      \<and> blocks h2 (requests h1) = Some bs2
      \<and> take (unat (encoded_size ib1)) bs2
          = take (unat (encoded_size ib1)) (replicate 10000 (0 :: byte))
      \<and> length bs2 = 20000"
  proof (rule enlarge_second)
    show "ibufs h1 a = Some ib1" "encoded_buffer_size ib1 = 10000"
        "encoded_buffer ib1 = \<lparr>data = Some (requests h), ownership = IB_TAKE_OWNERSHIP,
            implicit_sharing = None\<rparr>"
        "blocks h1 (requests h) = Some (replicate 10000 0)"
      by fact+
    show "unat (encoded_size ib1) \<le> 10000"
        "unat (encoded_size ib1) \<le> length (replicate 10000 (0 :: byte))"
      by (simp_all add: first(4))
    show "requests h \<noteq> requests h1" "alloc_ok h1 (requests h1)"
      using zero by (simp_all add: first(7,8))
  qed
  with first show "\<exists>h1 ib1 h2 ib2.
      imb_enlargeencodedbufferImBuf (Some a) h = Inr (True, h1)
      \<and> ibufs h1 a = Some ib1 \<and> encoded_buffer_size ib1 = 10000
      \<and> imb_enlargeencodedbufferImBuf (Some a) h1 = Inr (True, h2)
      \<and> ibufs h2 a = Some ib2 \<and> encoded_buffer_size ib2 = 20000"
    by blast
next
  assume zero: "encoded_buffer_size ib = 0 \<and> encoded_size ib = 0
      \<and> (data (encoded_buffer ib) = None \<or> slot_bytes (encoded_buffer ib) h \<noteq> None)
      \<and> alloc_ok h (requests h) \<and> alloc_ok h (Suc (requests h))"
  then obtain h1 ib1 where first:
      "imb_enlargeencodedbufferImBuf (Some a) h = Inr (True, h1)"
      "ibufs h1 a = Some ib1" "encoded_buffer_size ib1 = 10000" "encoded_size ib1 = 0"
      "encoded_buffer ib1
          = \<lparr>data = Some (requests h), ownership = IB_TAKE_OWNERSHIP, implicit_sharing = None\<rparr>"
      "blocks h1 (requests h) = Some (replicate 10000 0)"
      "requests h1 = Suc (requests h)" "alloc_ok h1 = alloc_ok h"
    using enlarge_first [OF assms, of] by blast
  have second: "\<exists>h2 ib2 bs2.
      imb_enlargeencodedbufferImBuf (Some a)
          (store a (ib1\<lparr>encoded_size := n\<rparr>) (h1\<lparr>blocks := (blocks h1)(requests h \<mapsto> bs)\<rparr>))
        = Inr (True, h2)
      \<and> ibufs h2 a = Some ib2 \<and> encoded_buffer_size ib2 = 20000
      \<and> encoded_size ib2 = n
      \<and> data (encoded_buffer ib2) = Some (Suc (requests h))
      \<and> blocks h2 (Suc (requests h)) = Some bs2
      \<and> take (unat n) bs2 = take (unat n) bs
      \<and> length bs2 = 20000"
    if w: "unat n \<le> 10000 \<and> length bs = 10000" for n :: "32 word" and bs :: "byte list"
  proof -
    let ?ibw = "ib1\<lparr>encoded_size := n\<rparr>"
    let ?hw = "store a ?ibw (h1\<lparr>blocks := (blocks h1)(requests h \<mapsto> bs)\<rparr>)"
    have "\<exists>h2 ib2 bs2. imb_enlargeencodedbufferImBuf (Some a) ?hw = Inr (True, h2)
      \<and> ibufs h2 a = Some ib2 \<and> encoded_buffer_size ib2 = 20000
      \<and> encoded_size ib2 = encoded_size ?ibw
      \<and> data (encoded_buffer ib2) = Some (requests ?hw)
      \<and> blocks h2 (requests ?hw) = Some bs2
      \<and> take (unat (encoded_size ?ibw)) bs2 = take (unat (encoded_size ?ibw)) bs
      \<and> length bs2 = 20000"
    proof (rule enlarge_second)
      show "ibufs ?hw a = Some ?ibw" by simp
      show "encoded_buffer ?ibw = \<lparr>data = Some (requests h), ownership = IB_TAKE_OWNERSHIP,
            implicit_sharing = None\<rparr>"
        by (simp add: first(5))
      show "encoded_buffer_size ?ibw = 10000" by (simp add: first(3))
      show "unat (encoded_size ?ibw) \<le> 10000" using w by simp
      show "blocks ?hw (requests h) = Some bs" by simp
      show "unat (encoded_size ?ibw) \<le> length bs" using w by simp
      show "requests h \<noteq> requests ?hw" by (simp add: first(7))
      show "alloc_ok ?hw (requests ?hw)" using zero by (simp add: first(7,8))
    qed
    then show ?thesis
      by (simp add: first(7))
  qed
  from first second show "\<exists>h1 ib1.
           imb_enlargeencodedbufferImBuf (Some a) h = Inr (True, h1)
           \<and> ibufs h1 a = Some ib1 \<and> encoded_buffer_size ib1 = 10000
           \<and> encoded_size ib1 = 0 \<and> data (encoded_buffer ib1) = Some (requests h)
           \<and> blocks h1 (requests h) = Some (replicate 10000 0)
           \<and> (\<forall>n bs. unat n \<le> 10000 \<and> length bs = 10000 \<longrightarrow>
                (\<exists>h2 ib2 bs2.
                   imb_enlargeencodedbufferImBuf (Some a)
                       (store a (ib1\<lparr>encoded_size := n\<rparr>)
                          (h1\<lparr>blocks := (blocks h1)(requests h \<mapsto> bs)\<rparr>))
                     = Inr (True, h2)
                   \<and> ibufs h2 a = Some ib2 \<and> encoded_buffer_size ib2 = 20000
                   \<and> encoded_size ib2 = n
                   \<and> data (encoded_buffer ib2) = Some (Suc (requests h))
                   \<and> blocks h2 (Suc (requests h)) = Some bs2
                   \<and> take (unat n) bs2 = take (unat n) bs
                   \<and> length bs2 = 20000))"
    by (intro exI [of _ h1] exI [of _ ib1]) simp
next
  fix d bs
  assume "data (encoded_buffer ib) = Some d \<and> blocks h d = Some bs
           \<and> \<not> encoded_buffer_size ib < encoded_size ib
           \<and> unat (encoded_size ib) \<le> length bs
           \<and> 2 * unat (encoded_buffer_size ib) < 2 ^ 32
           \<and> alloc_ok h (requests h)"
  then show "\<exists>h' ib' bs'. imb_enlargeencodedbufferImBuf (Some a) h = Inr (True, h')
              \<and> ibufs h' a = Some ib' \<and> encoded_size ib' = encoded_size ib
              \<and> encoded_buffer ib'
                  = \<lparr>data = Some (requests h), ownership = IB_TAKE_OWNERSHIP,
                     implicit_sharing = None\<rparr>
              \<and> blocks h (requests h) = None
              \<and> blocks h' (requests h) = Some bs'
              \<and> take (unat (encoded_size ib)) bs' = take (unat (encoded_size ib)) bs
              \<and> length bs' = unat (encoded_buffer_size ib')
              \<and> unat (encoded_buffer_size ib') = max (2 * unat (encoded_buffer_size ib)) 10000
              \<and> requests h' = Suc (requests h)"
    using enlarge_written [OF assms, of d bs] by blast
next
  fix h' d bs
  assume "imb_enlargeencodedbufferImBuf (Some a) h = Inr (True, h')
      \<and> data (encoded_buffer ib) = Some d \<and> blocks h d = Some bs"
  then show "\<exists>ib' d' bs'. ibufs h' a = Some ib' \<and> encoded_size ib' = encoded_size ib
      \<and> data (encoded_buffer ib') = Some d' \<and> blocks h' d' = Some bs'
      \<and> unat (encoded_size ib) \<le> length bs
      \<and> take (unat (encoded_size ib)) bs' = take (unat (encoded_size ib)) bs
      \<and> length bs' = unat (encoded_buffer_size ib')
      \<and> encoded_buffer_size ib' = max (2 * encoded_buffer_size ib) 10000"
    using enlarge_preserves_bytes [OF assms, of h' d bs] by blast
next
  assume "encoded_buffer_size ib < encoded_size ib"
  with assms(2) show "imb_enlargeencodedbufferImBuf (Some a) h = Inr (False, h)"
    by (rule enlarge_parameter_error)
next
  assume "\<not> encoded_buffer_size ib < encoded_size ib \<and> \<not> alloc_ok h (requests h)"
  with assms(2) show "imb_enlargeencodedbufferImBuf (Some a) h
      = Inr (False, h\<lparr>requests := Suc (requests h)\<rparr>)"
    by (simp add: enlarge_alloc_refused_run)
next
  fix h'
  assume "imb_enlargeencodedbufferImBuf (Some a) h = Inr (False, h')"
  from enlarge_refused [OF this]
  show "ibufs h' = ibufs h" "blocks h' = blocks h" "sharing h' = sharing h"
      "externals h' = externals h"
    by simp_all
qed

text \<open>
  Growth from capacity 0 to 10000 and 20000; the same with the bytes 7, 8, 9 written and
  in use before the second growth; growth of a buffer with five bytes in use of eight; a
  request with in-use size above the capacity; and a request that the allocator refuses.
\<close>

theorem enlarge_encoded_buffer_growth_witness:
  "heap_wf (heap_one small_image) \<and> heap_wf heap_encoded \<and> heap_wf heap_refusing
   \<and> (\<exists>h1 ib1 h2 ib2.
         imb_enlargeencodedbufferImBuf (Some 0) (heap_one small_image) = Inr (True, h1)
         \<and> ibufs h1 0 = Some ib1 \<and> encoded_buffer_size ib1 = 10000
         \<and> imb_enlargeencodedbufferImBuf (Some 0) h1 = Inr (True, h2)
         \<and> ibufs h2 0 = Some ib2 \<and> encoded_buffer_size ib2 = 20000)
   \<and> (\<exists>h1 ib1 h2 ib2 bs2.
         imb_enlargeencodedbufferImBuf (Some 0) (heap_one small_image) = Inr (True, h1)
         \<and> ibufs h1 0 = Some ib1 \<and> encoded_buffer_size ib1 = 10000
         \<and> blocks h1 1 = Some (replicate 10000 0)
         \<and> imb_enlargeencodedbufferImBuf (Some 0)
              (store 0 (ib1\<lparr>encoded_size := 3\<rparr>)
                 (h1\<lparr>blocks := (blocks h1)(1 \<mapsto> [7, 8, 9] @ replicate 9997 0)\<rparr>))
             = Inr (True, h2)
         \<and> ibufs h2 0 = Some ib2 \<and> encoded_buffer_size ib2 = 20000
         \<and> encoded_size ib2 = 3 \<and> data (encoded_buffer ib2) = Some 2
         \<and> blocks h2 2 = Some bs2 \<and> take 3 bs2 = [7, 8, 9] \<and> length bs2 = 20000)
   \<and> (\<exists>h' ib' bs'.
         imb_enlargeencodedbufferImBuf (Some 0) heap_encoded = Inr (True, h')
         \<and> ibufs h' 0 = Some ib' \<and> encoded_size ib' = 5
         \<and> data (encoded_buffer ib') = Some 2 \<and> blocks h' 2 = Some bs'
         \<and> take 5 bs' = [10, 20, 30, 40, 50]
         \<and> length bs' = 10000)
   \<and> imb_enlargeencodedbufferImBuf (Some 0) (heap_one inconsistent_image)
       = Inr (False, heap_one inconsistent_image)
   \<and> imb_enlargeencodedbufferImBuf (Some 0) heap_refusing
       = Inr (False, heap_refusing\<lparr>requests := 3\<rparr>)"
proof -
  have wf: "heap_wf (heap_one small_image)" "heap_wf heap_encoded"
      "heap_wf (heap_one inconsistent_image)" "heap_wf heap_refusing"
    by (auto simp: heap_wf_def heap_one_def heap_encoded_def heap_refusing_def)
  have live: "ibufs (heap_one small_image) 0 = Some small_image"
      "ibufs heap_encoded 0 = Some encoded_image"
      "ibufs (heap_one inconsistent_image) 0 = Some inconsistent_image"
      "ibufs heap_refusing 0 = Some encoded_image"
    by (simp_all add: heap_one_def heap_encoded_def heap_refusing_def)
  have small: "encoded_buffer_size small_image = 0 \<and> encoded_size small_image = 0
      \<and> (data (encoded_buffer small_image) = None
          \<or> slot_bytes (encoded_buffer small_image) (heap_one small_image) \<noteq> None)
      \<and> alloc_ok (heap_one small_image) (requests (heap_one small_image))
      \<and> alloc_ok (heap_one small_image) (Suc (requests (heap_one small_image)))"
    by (simp add: small_image_def zero_ImBuf_def zero_buffer_def heap_one_def)
  have req: "requests (heap_one small_image) = 1"
    by (simp add: heap_one_def)
  note t1 = enlarge_encoded_buffer_growth [OF wf(1) live(1)]
  from t1 [THEN conjunct1, rule_format, OF small]
  have one: "\<exists>h1 ib1 h2 ib2.
      imb_enlargeencodedbufferImBuf (Some 0) (heap_one small_image) = Inr (True, h1)
      \<and> ibufs h1 0 = Some ib1 \<and> encoded_buffer_size ib1 = 10000
      \<and> imb_enlargeencodedbufferImBuf (Some 0) h1 = Inr (True, h2)
      \<and> ibufs h2 0 = Some ib2 \<and> encoded_buffer_size ib2 = 20000" .
  from t1 [THEN conjunct2, THEN conjunct1, rule_format, OF small]
  obtain h1 ib1 where first:
      "imb_enlargeencodedbufferImBuf (Some 0) (heap_one small_image) = Inr (True, h1)"
      "ibufs h1 0 = Some ib1" "encoded_buffer_size ib1 = 10000"
      "blocks h1 (requests (heap_one small_image)) = Some (replicate 10000 0)"
    and second: "\<forall>n bs. unat n \<le> 10000 \<and> length bs = 10000 \<longrightarrow>
        (\<exists>h2 ib2 bs2.
           imb_enlargeencodedbufferImBuf (Some 0)
               (store 0 (ib1\<lparr>encoded_size := n\<rparr>)
                  (h1\<lparr>blocks := (blocks h1)(requests (heap_one small_image) \<mapsto> bs)\<rparr>))
             = Inr (True, h2)
           \<and> ibufs h2 0 = Some ib2 \<and> encoded_buffer_size ib2 = 20000
           \<and> encoded_size ib2 = n
           \<and> data (encoded_buffer ib2) = Some (Suc (requests (heap_one small_image)))
           \<and> blocks h2 (Suc (requests (heap_one small_image))) = Some bs2
           \<and> take (unat n) bs2 = take (unat n) bs
           \<and> length bs2 = 20000)"
    by (elim exE conjE)
  have w: "unat (3 :: 32 word) \<le> 10000
      \<and> length ([7, 8, 9] @ replicate 9997 (0 :: byte)) = 10000"
    by simp
  from second [rule_format, OF w] obtain h2 ib2 bs2 where written:
      "imb_enlargeencodedbufferImBuf (Some 0)
           (store 0 (ib1\<lparr>encoded_size := 3\<rparr>)
              (h1\<lparr>blocks := (blocks h1)(requests (heap_one small_image) \<mapsto>
                    [7, 8, 9] @ replicate 9997 0)\<rparr>))
         = Inr (True, h2)"
      "ibufs h2 0 = Some ib2" "encoded_buffer_size ib2 = 20000" "encoded_size ib2 = 3"
      "data (encoded_buffer ib2) = Some (Suc (requests (heap_one small_image)))"
      "blocks h2 (Suc (requests (heap_one small_image))) = Some bs2"
      "take (unat (3 :: 32 word)) bs2
         = take (unat (3 :: 32 word)) ([7, 8, 9] @ replicate 9997 0)"
      "length bs2 = 20000"
    by (elim exE conjE)
  from written(7) have t3: "take 3 bs2 = [7, 8, 9]"
    by simp
  have s2: "Suc 1 = (2 :: nat)"
    by simp
  note f = first [unfolded req] and wr = written [unfolded req s2]
  from f(1,2,3,4) wr(1,2,3,4,5,6) t3 wr(8) have two: "\<exists>h1 ib1 h2 ib2 bs2.
         imb_enlargeencodedbufferImBuf (Some 0) (heap_one small_image) = Inr (True, h1)
         \<and> ibufs h1 0 = Some ib1 \<and> encoded_buffer_size ib1 = 10000
         \<and> blocks h1 1 = Some (replicate 10000 0)
         \<and> imb_enlargeencodedbufferImBuf (Some 0)
              (store 0 (ib1\<lparr>encoded_size := 3\<rparr>)
                 (h1\<lparr>blocks := (blocks h1)(1 \<mapsto> [7, 8, 9] @ replicate 9997 0)\<rparr>))
             = Inr (True, h2)
         \<and> ibufs h2 0 = Some ib2 \<and> encoded_buffer_size ib2 = 20000
         \<and> encoded_size ib2 = 3 \<and> data (encoded_buffer ib2) = Some 2
         \<and> blocks h2 2 = Some bs2 \<and> take 3 bs2 = [7, 8, 9] \<and> length bs2 = 20000"
    by blast
  have enc: "data (encoded_buffer encoded_image) = Some 1
      \<and> blocks heap_encoded 1 = Some [10, 20, 30, 40, 50, 0, 0, 0]
      \<and> \<not> encoded_buffer_size encoded_image < encoded_size encoded_image
      \<and> unat (encoded_size encoded_image) \<le> length [10, 20, 30, 40, 50, 0, 0, 0 :: byte]
      \<and> 2 * unat (encoded_buffer_size encoded_image) < 2 ^ 32
      \<and> alloc_ok heap_encoded (requests heap_encoded)"
    by (simp add: encoded_image_def zero_ImBuf_def heap_encoded_def word_less_nat_alt)
  have encv: "encoded_size encoded_image = 5" "requests heap_encoded = 2"
      "encoded_buffer_size encoded_image = 8"
    by (simp_all add: encoded_image_def zero_ImBuf_def heap_encoded_def)
  note t2 = enlarge_encoded_buffer_growth [OF wf(2) live(2)]
  from t2 [THEN conjunct2, THEN conjunct2, THEN conjunct1, rule_format, OF enc]
  obtain h' ib' bs' where grown:
      "imb_enlargeencodedbufferImBuf (Some 0) heap_encoded = Inr (True, h')"
      "ibufs h' 0 = Some ib'" "encoded_size ib' = encoded_size encoded_image"
      "encoded_buffer ib' = \<lparr>data = Some (requests heap_encoded),
          ownership = IB_TAKE_OWNERSHIP, implicit_sharing = None\<rparr>"
      "blocks h' (requests heap_encoded) = Some bs'"
      "take (unat (encoded_size encoded_image)) bs'
         = take (unat (encoded_size encoded_image)) [10, 20, 30, 40, 50, 0, 0, 0]"
      "length bs' = unat (encoded_buffer_size ib')"
      "unat (encoded_buffer_size ib') = max (2 * unat (encoded_buffer_size encoded_image)) 10000"
    by (elim exE conjE)
  from grown(6) have t5: "take 5 bs' = [10, 20, 30, 40, 50]"
    by (simp add: encv)
  from grown(7,8) have l5: "length bs' = 10000"
    by (simp add: encv)
  from grown(4) have d5: "data (encoded_buffer ib') = Some 2"
    by (simp add: encv)
  from grown(3) have e5: "encoded_size ib' = 5"
    by (simp add: encv)
  from grown(1,2) e5 d5 grown(5) [unfolded encv] t5 l5
  have three: "\<exists>h' ib' bs'.
         imb_enlargeencodedbufferImBuf (Some 0) heap_encoded = Inr (True, h')
         \<and> ibufs h' 0 = Some ib' \<and> encoded_size ib' = 5
         \<and> data (encoded_buffer ib') = Some 2 \<and> blocks h' 2 = Some bs'
         \<and> take 5 bs' = [10, 20, 30, 40, 50]
         \<and> length bs' = 10000"
    by blast
  have bad: "encoded_buffer_size inconsistent_image < encoded_size inconsistent_image"
    by (simp add: inconsistent_image_def zero_ImBuf_def)
  note t3 = enlarge_encoded_buffer_growth [OF wf(3) live(3)]
  from t3 [THEN conjunct2, THEN conjunct2, THEN conjunct2, THEN conjunct2, THEN conjunct1,
      rule_format, OF bad]
  have four: "imb_enlargeencodedbufferImBuf (Some 0) (heap_one inconsistent_image)
      = Inr (False, heap_one inconsistent_image)" .
  have ref: "\<not> encoded_buffer_size encoded_image < encoded_size encoded_image
      \<and> \<not> alloc_ok heap_refusing (requests heap_refusing)"
    by (simp add: encoded_image_def zero_ImBuf_def heap_refusing_def word_less_nat_alt)
  have r3: "Suc (requests heap_refusing) = 3"
    by (simp add: heap_refusing_def heap_encoded_def)
  note t4 = enlarge_encoded_buffer_growth [OF wf(4) live(4)]
  from t4 [THEN conjunct2, THEN conjunct2, THEN conjunct2, THEN conjunct2, THEN conjunct2,
      THEN conjunct1, rule_format, OF ref]
  have five: "imb_enlargeencodedbufferImBuf (Some 0) heap_refusing
       = Inr (False, heap_refusing\<lparr>requests := 3\<rparr>)"
    by (simp only: r3)
  from wf(1,2,4) one two three four five show ?thesis
    by (intro conjI)
qed

subsection \<open>Reference counting and teardown\<close>

lemma releases_refl [simp]: "releases h h"
proof -
  have "sharing h s = None
      \<or> (\<exists>n n' d. sharing h s = Some (n, d) \<and> sharing h s = Some (n', d) \<and> n' \<le> n)" for s
    by (cases "sharing h s") auto
  moreover have "ibufs h a = None
      \<or> (\<exists>ib ib'. ibufs h a = Some ib \<and> ibufs h a = Some ib'
            \<and> refcounter ib' \<le> refcounter ib
            \<and> (refcounter ib' < refcounter ib \<longrightarrow> 0 \<le> refcounter ib'))" for a
    by (cases "ibufs h a") auto
  ultimately show ?thesis
    by (simp add: releases_def)
qed

lemma releases_trans:
  assumes "releases h h1" and "releases h1 h2"
  shows "releases h h2"
proof -
  have "blocks h2 a = None \<or> blocks h2 a = blocks h a" for a
    using assms by (auto simp: releases_def) metis
  moreover have "sharing h2 s = None
      \<or> (\<exists>n n' d. sharing h s = Some (n, d) \<and> sharing h2 s = Some (n', d) \<and> n' \<le> n)" for s
  proof (cases "sharing h2 s")
    case None
    then show ?thesis by simp
  next
    case (Some p)
    with assms(2) obtain n1 n2 d where
      1: "sharing h1 s = Some (n1, d)" "sharing h2 s = Some (n2, d)" "n2 \<le> n1"
      unfolding releases_def by (metis option.distinct(1))
    with assms(1) obtain n where "sharing h s = Some (n, d)" "n1 \<le> n"
      unfolding releases_def by (metis option.distinct(1) option.inject prod.inject)
    with 1 show ?thesis by auto
  qed
  moreover have "ibufs h2 a = None
      \<or> (\<exists>ib ib'. ibufs h a = Some ib \<and> ibufs h2 a = Some ib'
            \<and> refcounter ib' \<le> refcounter ib
            \<and> (refcounter ib' < refcounter ib \<longrightarrow> 0 \<le> refcounter ib'))" for a
  proof (cases "ibufs h2 a")
    case None
    then show ?thesis by simp
  next
    case (Some ib2)
    with assms(2) obtain ib1 where
      1: "ibufs h1 a = Some ib1" "refcounter ib2 \<le> refcounter ib1"
        "refcounter ib2 < refcounter ib1 \<longrightarrow> 0 \<le> refcounter ib2"
      unfolding releases_def by (metis option.distinct(1) option.inject)
    with assms(1) obtain ib where "ibufs h a = Some ib" "refcounter ib1 \<le> refcounter ib"
        "refcounter ib1 < refcounter ib \<longrightarrow> 0 \<le> refcounter ib1"
      unfolding releases_def by (metis option.distinct(1) option.inject)
    with 1 Some show ?thesis by auto
  qed
  moreover have "externals h2 \<subseteq> externals h"
    using assms by (auto simp: releases_def)
  ultimately show ?thesis
    by (simp add: releases_def)
qed

lemma untouched_refl [simp]: "untouched A h h"
  by (simp add: untouched_def)

lemma untouched_trans:
  assumes "untouched A h h1" and "untouched A h1 h2"
  shows "untouched A h h2"
  unfolding untouched_def
proof (intro allI impI)
  fix b ib2
  assume b: "b \<notin> A" and 2: "ibufs h2 b = Some ib2"
  from assms(2) b 2 obtain ib1 where
    1: "ibufs h1 b = Some ib1" "ib2 = ib1\<lparr>refcounter := refcounter ib2\<rparr>"
    unfolding untouched_def by blast
  from assms(1) b 1(1) obtain ib where
    0: "ibufs h b = Some ib" "ib1 = ib\<lparr>refcounter := refcounter ib1\<rparr>"
    unfolding untouched_def by blast
  have "ib2 = ib\<lparr>refcounter := refcounter ib2\<rparr>"
    by (subst 1(2), subst 0(2)) simp
  with 0(1) show "\<exists>ib. ibufs h b = Some ib \<and> ib2 = ib\<lparr>refcounter := refcounter ib2\<rparr>"
    by blast
qed

lemma untouched_mono: "untouched A h h' \<Longrightarrow> A \<subseteq> B \<Longrightarrow> untouched B h h'"
  by (auto simp: untouched_def)

lemma releases_blocks: "releases h h' \<Longrightarrow> blocks h a = None \<Longrightarrow> blocks h' a = None"
  unfolding releases_def by metis

lemma releases_ibufs: "releases h h' \<Longrightarrow> ibufs h a = None \<Longrightarrow> ibufs h' a = None"
  unfolding releases_def by (metis option.distinct(1))

lemma releases_sharing_None: "releases h h' \<Longrightarrow> sharing h s = None \<Longrightarrow> sharing h' s = None"
  unfolding releases_def by (metis option.distinct(1))

lemma releases_sharing_Some:
  "releases h h' \<Longrightarrow> sharing h s = Some (n, d) \<Longrightarrow>
     sharing h' s = None \<or> (\<exists>n'. n' \<le> n \<and> sharing h' s = Some (n', d))"
  unfolding releases_def by (metis option.inject prod.inject)

lemma releases_refcounter:
  "releases h h' \<Longrightarrow> ibufs h' a = Some ib' \<Longrightarrow>
     \<exists>ib. ibufs h a = Some ib \<and> refcounter ib' \<le> refcounter ib
       \<and> (refcounter ib' < refcounter ib \<longrightarrow> 0 \<le> refcounter ib')"
  unfolding releases_def by (metis option.distinct(1) option.inject)


lemma released_child_mono:
  assumes "releases h0 h" and "released_child c h h1" and "releases h1 h'"
  shows "released_child c h0 h'"
proof (cases "ibufs h' c")
  case None
  then show ?thesis by (simp add: released_child_def)
next
  case (Some cb')
  from releases_refcounter [OF assms(3) Some]
  obtain cb1 where 1: "ibufs h1 c = Some cb1" "refcounter cb' \<le> refcounter cb1"
      "refcounter cb' < refcounter cb1 \<longrightarrow> 0 \<le> refcounter cb'"
    by (elim exE conjE)
  from assms(2) 1(1) obtain cb where 2: "ibufs h c = Some cb" "refcounter cb1 < refcounter cb"
      "0 \<le> refcounter cb1"
    unfolding released_child_def by auto
  from releases_refcounter [OF assms(1) 2(1)]
  obtain cb0 where 3: "ibufs h0 c = Some cb0" "refcounter cb \<le> refcounter cb0"
    by (elim exE conjE)
  from 1 2 3 have "refcounter cb' < refcounter cb0 \<and> 0 \<le> refcounter cb'" by auto
  with 3(1) Some show ?thesis
    unfolding released_child_def by blast
qed

lemma slot_released_mono:
  assumes "releases h0 h" and "releases h h1" and "slot_released b h h1" and "releases h1 h'"
  shows "slot_released b h0 h'"
  unfolding slot_released_def
proof (intro conjI allI impI)
  fix d
  assume "data b = Some d \<and> ownership b = IB_TAKE_OWNERSHIP \<and> implicit_sharing b = None"
  with assms(3) have "blocks h1 d = None"
    unfolding slot_released_def by blast
  with assms(4) show "blocks h' d = None"
    by (rule releases_blocks)
next
  fix s n d
  assume a: "implicit_sharing b = Some s \<and> sharing h0 s = Some (n, d)"
  then have sh: "implicit_sharing b = Some s" and s0: "sharing h0 s = Some (n, d)"
    by simp_all
  show "sharing h' s = None \<or> (\<exists>n'<n. sharing h' s = Some (n', d))"
  proof (cases "sharing h s")
    case None
    then have "sharing h1 s = None"
      using assms(2) by (rule releases_sharing_None [rotated])
    then have "sharing h' s = None"
      using assms(4) by (rule releases_sharing_None [rotated])
    then show ?thesis by simp
  next
    case (Some q)
    with releases_sharing_Some [OF assms(1) s0]
    obtain n1 where n1: "n1 \<le> n" "sharing h s = Some (n1, d)"
      by auto
    from assms(3) sh n1(2)
    have "sharing h1 s = None \<or> (\<exists>n2. n2 < n1 \<and> sharing h1 s = Some (n2, d))"
      unfolding slot_released_def by blast
    then show ?thesis
    proof
      assume "sharing h1 s = None"
      then have "sharing h' s = None"
        using assms(4) by (rule releases_sharing_None [rotated])
      then show ?thesis by simp
    next
      assume "\<exists>n2. n2 < n1 \<and> sharing h1 s = Some (n2, d)"
      then obtain n2 where n2: "n2 < n1" "sharing h1 s = Some (n2, d)"
        by blast
      from releases_sharing_Some [OF assms(4) n2(2)]
      have "sharing h' s = None \<or> (\<exists>n'. n' \<le> n2 \<and> sharing h' s = Some (n', d))" .
      then show ?thesis
      proof
        assume "sharing h' s = None"
        then show ?thesis by simp
      next
        assume "\<exists>n'. n' \<le> n2 \<and> sharing h' s = Some (n', d)"
        then obtain n' where "n' \<le> n2" "sharing h' s = Some (n', d)" by blast
        with n1(1) n2(1) have "n' < n \<and> sharing h' s = Some (n', d)" by simp
        then show ?thesis by blast
      qed
    qed
  qed
qed

lemma releases_store:
  "ibufs h a = Some ib \<Longrightarrow>
     refcounter ib' = refcounter ib \<or> (refcounter ib' < refcounter ib \<and> 0 \<le> refcounter ib')
     \<Longrightarrow> releases h (store a ib' h)"
proof -
  assume a: "ibufs h a = Some ib"
    "refcounter ib' = refcounter ib \<or> (refcounter ib' < refcounter ib \<and> 0 \<le> refcounter ib')"
  have "sharing h s = None
      \<or> (\<exists>n n' d. sharing h s = Some (n, d) \<and> sharing h s = Some (n', d) \<and> n' \<le> n)" for s
    by (cases "sharing h s") auto
  moreover have "((ibufs h)(a \<mapsto> ib')) b = None
      \<or> (\<exists>ib0 ib1. ibufs h b = Some ib0 \<and> ((ibufs h)(a \<mapsto> ib')) b = Some ib1
            \<and> refcounter ib1 \<le> refcounter ib0
            \<and> (refcounter ib1 < refcounter ib0 \<longrightarrow> 0 \<le> refcounter ib1))" for b
    using a by (cases "ibufs h b") auto
  ultimately show ?thesis
    by (simp add: releases_def)
qed

lemma untouched_store: "a \<in> A \<Longrightarrow> untouched A h (store a ib' h)"
  by (auto simp: untouched_def)

lemma untouched_store_refcounter:
  "ibufs h a = Some ib \<Longrightarrow> untouched A h (store a (ib\<lparr>refcounter := r\<rparr>) h)"
  by (auto simp: untouched_def)

lemma releases_same_ibufs:
  assumes "ibufs h' = ibufs h" and "externals h' \<subseteq> externals h"
    and "\<And>a. blocks h' a = None \<or> blocks h' a = blocks h a"
    and "\<And>s. sharing h' s = None
          \<or> (\<exists>n n' d. sharing h s = Some (n, d) \<and> sharing h' s = Some (n', d) \<and> n' \<le> n)"
  shows "releases h h'"
proof -
  have "ibufs h a = None
      \<or> (\<exists>ib ib'. ibufs h a = Some ib \<and> ibufs h a = Some ib'
            \<and> refcounter ib' \<le> refcounter ib
            \<and> (refcounter ib' < refcounter ib \<longrightarrow> 0 \<le> refcounter ib'))" for a
    by (cases "ibufs h a") auto
  with assms show ?thesis
    by (simp add: releases_def)
qed

lemma sharing_same:
  "sharing h s = None
     \<or> (\<exists>n n' d. sharing h s = Some (n, d) \<and> sharing h s = Some (n', d) \<and> n' \<le> n)"
  by (cases "sharing h s") auto

lemma releases_remove_user: "releases h (remove_user_and_delete_if_last s h)"
proof (cases "sharing h s")
  case None
  then show ?thesis by (simp add: remove_user_and_delete_if_last_def)
next
  case (Some p)
  obtain n d where p: "p = (n, d)" by (cases p)
  show ?thesis
  proof (cases "n \<le> 1")
    case True
    with Some p have eq: "remove_user_and_delete_if_last s h
        = h\<lparr>blocks := (blocks h)(d := None), sharing := (sharing h)(s := None)\<rparr>"
      by (simp add: remove_user_and_delete_if_last_def)
    show ?thesis
      unfolding eq using sharing_same [of h]
      by (intro releases_same_ibufs) auto
  next
    case False
    with Some p have eq: "remove_user_and_delete_if_last s h
        = h\<lparr>sharing := (sharing h)(s \<mapsto> (n - 1, d))\<rparr>"
      by (simp add: remove_user_and_delete_if_last_def)
    show ?thesis
      unfolding eq using sharing_same [of h] Some p
      by (intro releases_same_ibufs) auto
  qed
qed

lemma releases_MEM_freeN: "releases h (MEM_freeN d h)"
  unfolding MEM_freeN_def using sharing_same [of h]
  by (intro releases_same_ibufs) auto

lemma releases_free_buffer: "releases h (snd (imb_free_buffer b h))"
  by (simp add: imb_free_buffer_def releases_remove_user releases_MEM_freeN
      split: option.splits ImBufOwnership.splits)

lemma untouched_same_ibufs: "ibufs h' = ibufs h \<Longrightarrow> untouched A h h'"
  by (auto simp: untouched_def)

lemma slot_released_free_buffer: "slot_released b h (snd (imb_free_buffer b h))"
proof (cases "implicit_sharing b")
  case None
  then show ?thesis
    by (auto simp: slot_released_def imb_free_buffer_def MEM_freeN_def
        split: option.splits)
next
  case (Some s)
  then show ?thesis
    by (auto simp: slot_released_def imb_free_buffer_def remove_user_and_delete_if_last_def)
qed

lemma loop_Cons_None:
  "ibufs h a = Some ib \<Longrightarrow> mipmap ib l = None \<Longrightarrow>
     imb_freemipmapImBuf_loop fc a (l # ls) h = imb_freemipmapImBuf_loop fc a ls h"
  by (simp add: load_live)

lemma loop_Cons_Some:
  assumes "ibufs h a = Some ib" and "mipmap ib l = Some c"
    and "imb_freemipmapImBuf_loop fc a (l # ls) h = Inr h'"
  obtains h1 ib1 where "fc (Some c) h = Inr h1" and "ibufs h1 a = Some ib1"
    and "imb_freemipmapImBuf_loop fc a ls
           (store a (ib1\<lparr>mipmap := (mipmap ib1)(l := None)\<rparr>) h1) = Inr h'"
  using assms
  by (auto simp: load_live modify_def and_then_eq_Inr split: sum.splits)

lemma release_fnD:
  assumes "release_fn fc" and "fc p h = Inr h'"
  shows "releases h h'" and "untouched {} h h'" and "p = Some c \<Longrightarrow> released_child c h h'"
  using assms unfolding release_fn_def by blast+

lemma untouchedD:
  "untouched A h h' \<Longrightarrow> b \<notin> A \<Longrightarrow> ibufs h' b = Some ib' \<Longrightarrow>
     \<exists>ib. ibufs h b = Some ib \<and> ib' = ib\<lparr>refcounter := refcounter ib'\<rparr>"
  unfolding untouched_def by blast

lemma loop_effect:
  assumes fc: "release_fn fc"
  shows "imb_freemipmapImBuf_loop fc a ls h = Inr h' \<Longrightarrow> ibufs h a = Some ib \<Longrightarrow>
     releases h h' \<and> untouched {a} h h' \<and>
     (\<exists>ib'. ibufs h' a = Some ib'
         \<and> ib' = ib\<lparr>mipmap := mipmap ib', refcounter := refcounter ib'\<rparr>
         \<and> (\<forall>l. mipmap ib' l = (if l \<in> set ls then None else mipmap ib l))
         \<and> (\<forall>l c. l \<in> set ls \<and> mipmap ib l = Some c \<longrightarrow> released_child c h h'))"
proof (induction ls arbitrary: h ib)
  case Nil
  then show ?case by simp
next
  case (Cons l ls)
  show ?case
  proof (cases "mipmap ib l")
    case None
    from Cons.prems(1) have "imb_freemipmapImBuf_loop fc a ls h = Inr h'"
      by (simp only: loop_Cons_None [OF Cons.prems(2) None])
    from Cons.IH [OF this Cons.prems(2)] None show ?thesis
      by (auto split: if_splits)
  next
    case (Some c)
    from loop_Cons_Some [OF Cons.prems(2) Some Cons.prems(1)]
    obtain h1 ib1 where child: "fc (Some c) h = Inr h1" and live1: "ibufs h1 a = Some ib1"
      and rest: "imb_freemipmapImBuf_loop fc a ls
           (store a (ib1\<lparr>mipmap := (mipmap ib1)(l := None)\<rparr>) h1) = Inr h'"
      by blast
    let ?ib2 = "ib1\<lparr>mipmap := (mipmap ib1)(l := None)\<rparr>"
    let ?h2 = "store a ?ib2 h1"
    note r1 = release_fnD [OF fc child]
    from untouchedD [OF r1(2) _ live1] Cons.prems(2)
    have ib1: "ib1 = ib\<lparr>refcounter := refcounter ib1\<rparr>" by simp
    have r2: "releases h1 ?h2"
      using live1 by (rule releases_store) simp
    have r02: "releases h ?h2"
      using r1(1) r2 by (rule releases_trans)
    have u02: "untouched {a} h ?h2"
      using untouched_mono [OF r1(2), of "{a}"] untouched_store [of a "{a}" h1 ?ib2]
      by (auto intro: untouched_trans)
    have live2: "ibufs ?h2 a = Some ?ib2" by simp
    from Cons.IH [OF rest live2]
    obtain ib' where r3: "releases ?h2 h'" and u3: "untouched {a} ?h2 h'"
      and live': "ibufs h' a = Some ib'"
      and eq': "ib' = ?ib2\<lparr>mipmap := mipmap ib', refcounter := refcounter ib'\<rparr>"
      and mips: "\<forall>l'. mipmap ib' l' = (if l' \<in> set ls then None else mipmap ?ib2 l')"
      and kids: "\<forall>l' c'. l' \<in> set ls \<and> mipmap ?ib2 l' = Some c' \<longrightarrow> released_child c' ?h2 h'"
      by blast
    have "releases h h'"
      using r02 r3 by (rule releases_trans)
    moreover have "untouched {a} h h'"
      using u02 u3 by (rule untouched_trans)
    moreover have "ib' = ib\<lparr>mipmap := mipmap ib', refcounter := refcounter ib'\<rparr>"
      by (subst eq', subst ib1) simp
    moreover have "\<forall>l'. mipmap ib' l' = (if l' \<in> set (l # ls) then None else mipmap ib l')"
    proof
      fix l'
      have "mipmap ib1 l' = mipmap ib l'"
        by (subst ib1) simp
      with mips show "mipmap ib' l' = (if l' \<in> set (l # ls) then None else mipmap ib l')"
        by simp
    qed
    moreover have "\<forall>l' c'. l' \<in> set (l # ls) \<and> mipmap ib l' = Some c'
        \<longrightarrow> released_child c' h h'"
    proof (intro allI impI)
      fix l' c'
      assume a: "l' \<in> set (l # ls) \<and> mipmap ib l' = Some c'"
      show "released_child c' h h'"
      proof (cases "l' = l")
        case True
        with a Some have "c' = c" by simp
        with r1(3) have "released_child c' h h1" by simp
        with releases_refl show ?thesis
          using releases_trans [OF r2 r3] by (rule released_child_mono)
      next
        case False
        have "mipmap ib1 l' = mipmap ib l'"
          by (subst ib1) simp
        with False a have "l' \<in> set ls \<and> mipmap ?ib2 l' = Some c'" by simp
        with kids have "released_child c' ?h2 h'" by blast
        with r02 show ?thesis
          using releases_refl by (rule released_child_mono)
      qed
    qed
    ultimately show ?thesis
      using live' by blast
  qed
qed

lemma untouched_free_step:
  "ibufs h1 = (ibufs h)(a \<mapsto> x) \<Longrightarrow> untouched {a} h h1"
  by (auto simp: untouched_def)

lemma releases_free_slot:
  assumes "ibufs h a = Some ib" and "refcounter ib' = refcounter ib"
  shows "releases h (store a ib' (snd (imb_free_buffer b h)))"
proof -
  have "releases (snd (imb_free_buffer b h)) (store a ib' (snd (imb_free_buffer b h)))"
    using assms by (intro releases_store [where ib = ib]) simp_all
  with releases_free_buffer [of h b] show ?thesis
    by (rule releases_trans)
qed

lemma freemipmap_effect:
  assumes fc: "release_fn fc"
    and run: "imb_freemipmapImBuf fc (Some a) h = Inr h'" and live: "ibufs h a = Some ib"
  shows "releases h h' \<and> untouched {a} h h' \<and>
     (\<exists>ib'. ibufs h' a = Some ib'
         \<and> ib' = ib\<lparr>mipmap := mipmap ib', miptot := 0, refcounter := refcounter ib'\<rparr>
         \<and> (\<forall>l. mipmap ib' l = (if l < IMB_MIPMAP_LEVELS then None else mipmap ib l))
         \<and> (\<forall>l c. l < IMB_MIPMAP_LEVELS \<and> mipmap ib l = Some c \<longrightarrow> released_child c h h'))"
proof -
  from run obtain h1 where loop: "imb_freemipmapImBuf_loop fc a [0..<IMB_MIPMAP_LEVELS] h = Inr h1"
    and fin: "modify a (\<lambda>ib. ib\<lparr>miptot := 0\<rparr>) h1 = Inr h'"
    by (auto simp: imb_freemipmapImBuf_def nonnull_def and_then_eq_Inr)
  from loop_effect [OF fc loop live]
  obtain ib1 where r1: "releases h h1" and u1: "untouched {a} h h1"
    and live1: "ibufs h1 a = Some ib1"
    and eq1: "ib1 = ib\<lparr>mipmap := mipmap ib1, refcounter := refcounter ib1\<rparr>"
    and mips: "\<forall>l. mipmap ib1 l = (if l \<in> set [0..<IMB_MIPMAP_LEVELS] then None else mipmap ib l)"
    and kids: "\<forall>l c. l \<in> set [0..<IMB_MIPMAP_LEVELS] \<and> mipmap ib l = Some c
        \<longrightarrow> released_child c h h1"
    by blast
  from fin live1 have h': "h' = store a (ib1\<lparr>miptot := 0\<rparr>) h1"
    by (simp add: modify_run)
  have r2: "releases h1 h'"
    unfolding h' using live1 by (rule releases_store) simp
  have "releases h h'"
    using r1 r2 by (rule releases_trans)
  moreover have "untouched {a} h h'"
    using u1 unfolding h' by (rule untouched_trans) (simp add: untouched_store)
  moreover have "ibufs h' a = Some (ib1\<lparr>miptot := 0\<rparr>)"
    by (simp add: h')
  moreover have "ib1\<lparr>miptot := 0\<rparr>
      = ib\<lparr>mipmap := mipmap (ib1\<lparr>miptot := 0\<rparr>), miptot := 0,
           refcounter := refcounter (ib1\<lparr>miptot := 0\<rparr>)\<rparr>"
    by (subst eq1) simp
  moreover have "\<forall>l. mipmap (ib1\<lparr>miptot := 0\<rparr>) l
      = (if l < IMB_MIPMAP_LEVELS then None else mipmap ib l)"
    using mips by simp
  moreover have "\<forall>l c. l < IMB_MIPMAP_LEVELS \<and> mipmap ib l = Some c \<longrightarrow> released_child c h h'"
  proof (intro allI impI)
    fix l c
    assume "l < IMB_MIPMAP_LEVELS \<and> mipmap ib l = Some c"
    with kids have "released_child c h h1" by simp
    with releases_refl show "released_child c h h'"
      using r2 by (rule released_child_mono)
  qed
  ultimately show ?thesis by blast
qed

lemma freerect_effect:
  assumes fc: "release_fn fc"
    and run: "and_then (free_slot sl a h) (\<lambda>h1.
            and_then (imb_freemipmapImBuf fc (Some a) h1) (\<lambda>h2.
              clear_flag (slot_flag sl) a h2)) = Inr h'"
    and live: "ibufs h a = Some ib"
  shows "releases h h' \<and> untouched {a} h h' \<and> slot_released (slot_of sl ib) h h' \<and>
     (\<exists>ib'. ibufs h' a = Some ib'
         \<and> ib' = (slot_update sl zero_buffer ib)
                   \<lparr>flags := flags ib AND NOT (slot_flag sl),
                    mipmap := mipmap ib', miptot := 0, refcounter := refcounter ib'\<rparr>
         \<and> (\<forall>l. mipmap ib' l = (if l < IMB_MIPMAP_LEVELS then None else mipmap ib l))
         \<and> (\<forall>l c. l < IMB_MIPMAP_LEVELS \<and> mipmap ib l = Some c \<longrightarrow> released_child c h h'))"
proof -
  let ?ib1 = "slot_update sl zero_buffer ib"
  let ?h1 = "store a ?ib1 (snd (imb_free_buffer (slot_of sl ib) h))"
  from run live obtain h2 where mip: "imb_freemipmapImBuf fc (Some a) ?h1 = Inr h2"
    and fin: "clear_flag (slot_flag sl) a h2 = Inr h'"
    by (auto simp: free_slot_run and_then_eq_Inr)
  have rc: "refcounter ?ib1 = refcounter ib" "mipmap ?ib1 = mipmap ib"
      "flags ?ib1 = flags ib"
    by (cases sl; simp)+
  have r1: "releases h ?h1"
    using live by (rule releases_free_slot) (simp add: rc)
  have s1: "slot_released (slot_of sl ib) h ?h1"
    using slot_released_free_buffer [of "slot_of sl ib" h]
    by (simp add: slot_released_def)
  have u1: "untouched {a} h ?h1"
    by (rule untouched_free_step [where x = ?ib1]) simp
  have live1: "ibufs ?h1 a = Some ?ib1" by simp
  from freemipmap_effect [OF fc mip live1]
  obtain ib2 where r2: "releases ?h1 h2" and u2: "untouched {a} ?h1 h2"
    and live2: "ibufs h2 a = Some ib2"
    and eq2: "ib2 = ?ib1\<lparr>mipmap := mipmap ib2, miptot := 0, refcounter := refcounter ib2\<rparr>"
    and mips: "\<forall>l. mipmap ib2 l = (if l < IMB_MIPMAP_LEVELS then None else mipmap ?ib1 l)"
    and kids: "\<forall>l c. l < IMB_MIPMAP_LEVELS \<and> mipmap ?ib1 l = Some c
        \<longrightarrow> released_child c ?h1 h2"
    by blast
  let ?ib' = "ib2\<lparr>flags := flags ib2 AND NOT (slot_flag sl)\<rparr>"
  from fin live2 have h': "h' = store a ?ib' h2"
    by (simp add: clear_flag_def modify_run)
  have r3: "releases h2 h'"
    unfolding h' using live2 by (rule releases_store) simp
  have r12: "releases ?h1 h'"
    using r2 r3 by (rule releases_trans)
  have "releases h h'"
    using r1 r12 by (rule releases_trans)
  moreover have "untouched {a} h h'"
    using untouched_trans [OF u1 u2] unfolding h'
    by (rule untouched_trans) (simp add: untouched_store)
  moreover have "slot_released (slot_of sl ib) h h'"
    using releases_refl r1 s1 r12 by (rule slot_released_mono)
  moreover have "ibufs h' a = Some ?ib'"
    by (simp add: h')
  moreover have "flags ib2 = flags ib"
    by (subst eq2) (simp add: rc)
  then have "?ib' = ?ib1\<lparr>flags := flags ib AND NOT (slot_flag sl),
       mipmap := mipmap ?ib', miptot := 0, refcounter := refcounter ?ib'\<rparr>"
    by (subst eq2) simp
  moreover have "\<forall>l. mipmap ?ib' l = (if l < IMB_MIPMAP_LEVELS then None else mipmap ib l)"
    using mips by (simp add: rc)
  moreover have "\<forall>l c. l < IMB_MIPMAP_LEVELS \<and> mipmap ib l = Some c \<longrightarrow> released_child c h h'"
  proof (intro allI impI)
    fix l c
    assume "l < IMB_MIPMAP_LEVELS \<and> mipmap ib l = Some c"
    with kids have "released_child c ?h1 h2" by (simp add: rc)
    with r1 show "released_child c h h'"
      using r3 by (rule released_child_mono)
  qed
  ultimately show ?thesis by blast
qed

lemma free_plain_run:
  assumes "ibufs h a = Some ib"
  shows "and_then (free_slot sl a h) (\<lambda>h1. clear_flag (slot_flag sl) a h1)
     = Inr (store a ((slot_update sl zero_buffer ib)\<lparr>flags := flags ib AND NOT (slot_flag sl)\<rparr>)
              (snd (imb_free_buffer (slot_of sl ib) h)))"
  using assms by (cases sl) (simp_all add: free_slot_run clear_flag_def modify_run)

lemma freeencoded_run:
  assumes "ibufs h a = Some ib"
  shows "freeencodedbufferImBuf (Some a) h
     = Inr (store a (ib\<lparr>encoded_buffer := zero_buffer, encoded_buffer_size := 0,
                        encoded_size := 0, flags := flags ib AND NOT IB_mem\<rparr>)
              (snd (imb_free_buffer (encoded_buffer ib) h)))"
  using assms by (simp add: freeencodedbufferImBuf_def free_slot_run modify_run)

lemma slot_released_step:
  "slot_released b h (store a ib' (snd (imb_free_buffer b h)))"
  using slot_released_free_buffer [of b h] by (simp add: slot_released_def)

lemma free_plain_effect:
  assumes run: "and_then (free_slot sl a h) (\<lambda>h1. clear_flag (slot_flag sl) a h1) = Inr h'"
    and live: "ibufs h a = Some ib"
  shows "releases h h'" and "untouched {a} h h'" and "slot_released (slot_of sl ib) h h'"
    and "ibufs h' a
      = Some ((slot_update sl zero_buffer ib)\<lparr>flags := flags ib AND NOT (slot_flag sl)\<rparr>)"
proof -
  from run have h': "h' = store a
      ((slot_update sl zero_buffer ib)\<lparr>flags := flags ib AND NOT (slot_flag sl)\<rparr>)
      (snd (imb_free_buffer (slot_of sl ib) h))"
    by (simp add: free_plain_run [OF live])
  show "releases h h'"
    unfolding h' using live by (rule releases_free_slot) (cases sl; simp)
  show "untouched {a} h h'"
    unfolding h' by (simp add: untouched_def)
  show "slot_released (slot_of sl ib) h h'"
    unfolding h' by (rule slot_released_step)
  show "ibufs h' a
      = Some ((slot_update sl zero_buffer ib)\<lparr>flags := flags ib AND NOT (slot_flag sl)\<rparr>)"
    unfolding h' by simp
qed

lemma freeencoded_effect:
  assumes run: "freeencodedbufferImBuf (Some a) h = Inr h'"
    and live: "ibufs h a = Some ib"
  shows "releases h h'" and "untouched {a} h h'" and "slot_released (encoded_buffer ib) h h'"
    and "ibufs h' a
      = Some (ib\<lparr>encoded_buffer := zero_buffer, encoded_buffer_size := 0,
                 encoded_size := 0, flags := flags ib AND NOT IB_mem\<rparr>)"
proof -
  from run have h': "h' = store a
      (ib\<lparr>encoded_buffer := zero_buffer, encoded_buffer_size := 0,
          encoded_size := 0, flags := flags ib AND NOT IB_mem\<rparr>)
      (snd (imb_free_buffer (encoded_buffer ib) h))"
    by (simp add: freeencoded_run [OF live])
  show "releases h h'"
    unfolding h' using live by (rule releases_free_slot) simp
  show "untouched {a} h h'"
    unfolding h' by (simp add: untouched_def)
  show "slot_released (encoded_buffer ib) h h'"
    unfolding h' by (rule slot_released_step)
  show "ibufs h' a
      = Some (ib\<lparr>encoded_buffer := zero_buffer, encoded_buffer_size := 0,
                 encoded_size := 0, flags := flags ib AND NOT IB_mem\<rparr>)"
    unfolding h' by simp
qed

lemma freerectImbuf_all_effect:
  assumes fc: "release_fn fc"
    and run: "imb_freerectImbuf_all fc (Some a) h = Inr h'"
    and live: "ibufs h a = Some ib"
  shows "releases h h' \<and> untouched {a} h h'
     \<and> (\<forall>sl. slot_released (slot_of sl ib) h h')
     \<and> (\<exists>ib'. ibufs h' a = Some ib'
           \<and> ib' = (torn_down ib)\<lparr>mipmap := mipmap ib', refcounter := refcounter ib'\<rparr>
           \<and> (\<forall>l. mipmap ib' l = (if l < IMB_MIPMAP_LEVELS then None else mipmap ib l)))
     \<and> (\<forall>l c. l < IMB_MIPMAP_LEVELS \<and> mipmap ib l = Some c \<longrightarrow> released_child c h h')"
proof -
  from run obtain h1 h2 h3 h4 where
    s1: "imb_freerectImBuf fc (Some a) h = Inr h1" and
    s2: "imb_freerectfloatImBuf fc (Some a) h1 = Inr h2" and
    s3: "IMB_freezbufImBuf (Some a) h2 = Inr h3" and
    s4: "IMB_freezbuffloatImBuf (Some a) h3 = Inr h4" and
    s5: "freeencodedbufferImBuf (Some a) h4 = Inr h'"
    by (auto simp: imb_freerectImbuf_all_def and_then_eq_Inr)
  from freerect_effect [OF fc, of ByteBuffer a h h1 ib] s1 live
  obtain ib1 where r1: "releases h h1" and u1: "untouched {a} h h1"
    and f1: "slot_released (byte_buffer ib) h h1"
    and live1: "ibufs h1 a = Some ib1"
    and eq1: "ib1 = ib\<lparr>byte_buffer := zero_buffer, flags := flags ib AND NOT IB_rect,
        mipmap := mipmap ib1, miptot := 0, refcounter := refcounter ib1\<rparr>"
    and mips1: "\<forall>l. mipmap ib1 l = (if l < IMB_MIPMAP_LEVELS then None else mipmap ib l)"
    and kids: "\<forall>l c. l < IMB_MIPMAP_LEVELS \<and> mipmap ib l = Some c \<longrightarrow> released_child c h h1"
    by (auto simp: imb_freerectImBuf_def)
  from freerect_effect [OF fc, of FloatBuffer a h1 h2 ib1] s2 live1
  obtain ib2 where r2: "releases h1 h2" and u2: "untouched {a} h1 h2"
    and f2: "slot_released (float_buffer ib1) h1 h2"
    and live2: "ibufs h2 a = Some ib2"
    and eq2: "ib2 = ib1\<lparr>float_buffer := zero_buffer, flags := flags ib1 AND NOT IB_rectfloat,
        mipmap := mipmap ib2, miptot := 0, refcounter := refcounter ib2\<rparr>"
    and mips2: "\<forall>l. mipmap ib2 l = (if l < IMB_MIPMAP_LEVELS then None else mipmap ib1 l)"
    by (auto simp: imb_freerectfloatImBuf_def)
  define ib3 where "ib3 = ib2\<lparr>z_buffer := zero_buffer, flags := flags ib2 AND NOT IB_zbuf\<rparr>"
  from s3 have s3': "and_then (free_slot ZBuffer a h2) (\<lambda>h1. clear_flag (slot_flag ZBuffer) a h1)
      = Inr h3"
    by (simp add: IMB_freezbufImBuf_def)
  note e3 = free_plain_effect [OF s3' live2]
  have live3: "ibufs h3 a = Some ib3"
    using e3(4) by (simp add: ib3_def)
  define ib4 where
    "ib4 = ib3\<lparr>float_z_buffer := zero_buffer, flags := flags ib3 AND NOT IB_zbuffloat\<rparr>"
  from s4 have s4': "and_then (free_slot FloatZBuffer a h3)
      (\<lambda>h1. clear_flag (slot_flag FloatZBuffer) a h1) = Inr h4"
    by (simp add: IMB_freezbuffloatImBuf_def)
  note e4 = free_plain_effect [OF s4' live3]
  have live4: "ibufs h4 a = Some ib4"
    using e4(4) by (simp add: ib4_def)
  define ib5 where
    "ib5 = ib4\<lparr>encoded_buffer := zero_buffer, encoded_buffer_size := 0,
               encoded_size := 0, flags := flags ib4 AND NOT IB_mem\<rparr>"
  note e5 = freeencoded_effect [OF s5 live4]
  have live5: "ibufs h' a = Some ib5"
    using e5(4) by (simp add: ib5_def)
  have slots: "float_buffer ib1 = float_buffer ib" "z_buffer ib2 = z_buffer ib"
      "float_z_buffer ib3 = float_z_buffer ib" "encoded_buffer ib4 = encoded_buffer ib"
    unfolding ib4_def ib3_def
    by (subst eq1, simp) (subst eq2, subst eq1, simp)+
  note r3 = e3(1) and r4 = e4(1) and r5 = e5(1)
  note r02 = releases_trans [OF r1 r2]
  note r03 = releases_trans [OF r02 r3]
  note r04 = releases_trans [OF r03 r4]
  note r05 = releases_trans [OF r04 r5]
  note r45 = releases_trans [OF r4 r5]
  note r35 = releases_trans [OF r3 r45]
  note r25 = releases_trans [OF r2 r35]
  have "releases h h'" by (rule r05)
  moreover have "untouched {a} h h'"
    by (rule untouched_trans [OF untouched_trans [OF untouched_trans
        [OF untouched_trans [OF u1 u2] e3(2)] e4(2)] e5(2)])
  moreover have "\<forall>sl. slot_released (slot_of sl ib) h h'"
  proof
    fix sl
    show "slot_released (slot_of sl ib) h h'"
    proof (cases sl)
      case ByteBuffer
      from releases_refl r1 f1 r25 have "slot_released (byte_buffer ib) h h'"
        by (rule slot_released_mono)
      with ByteBuffer show ?thesis by simp
    next
      case FloatBuffer
      from r1 r2 f2 r35 have "slot_released (float_buffer ib1) h h'"
        by (rule slot_released_mono)
      with FloatBuffer show ?thesis by (simp add: slots)
    next
      case ZBuffer
      from r02 r3 e3(3) r45 have "slot_released (slot_of ZBuffer ib2) h h'"
        by (rule slot_released_mono)
      with ZBuffer show ?thesis by (simp add: slots)
    next
      case FloatZBuffer
      from r03 r4 e4(3) r5 have "slot_released (slot_of FloatZBuffer ib3) h h'"
        by (rule slot_released_mono)
      with FloatZBuffer show ?thesis by (simp add: slots)
    next
      case EncodedBuffer
      from r04 r5 e5(3) releases_refl have "slot_released (encoded_buffer ib4) h h'"
        by (rule slot_released_mono)
      with EncodedBuffer show ?thesis by (simp add: slots)
    qed
  qed
  moreover have "ib5 = (torn_down ib)\<lparr>mipmap := mipmap ib5, refcounter := refcounter ib5\<rparr>"
    unfolding ib5_def ib4_def ib3_def
    by (subst eq2, subst eq1, subst (3) eq2, subst (3) eq1) (simp add: torn_down_def)
  moreover have "\<forall>l. mipmap ib5 l = (if l < IMB_MIPMAP_LEVELS then None else mipmap ib l)"
    using mips1 mips2 unfolding ib5_def ib4_def ib3_def by simp
  moreover have "\<forall>l c. l < IMB_MIPMAP_LEVELS \<and> mipmap ib l = Some c \<longrightarrow> released_child c h h'"
  proof (intro allI impI)
    fix l c
    assume "l < IMB_MIPMAP_LEVELS \<and> mipmap ib l = Some c"
    with kids have "released_child c h h1" by simp
    with releases_refl show "released_child c h h'"
      using r25 by (rule released_child_mono)
  qed
  ultimately show ?thesis using live5 by blast
qed

lemma teardown_tail:
  assumes "ibufs h1 a = Some ib1"
  shows "\<exists>H. and_then (load a h1) (\<lambda>ib1.
           and_then (colormanage_cache_free a (IMB_metadata_free (metadata ib1) h1)) (\<lambda>h2.
             and_then (load a h2) (\<lambda>ib2.
               Inr (MEM_freeN_ImBuf a
                      (case dds_data ib2 of None \<Rightarrow> h2 | Some d \<Rightarrow> free_dds d h2))))) = Inr H
       \<and> blocks H = blocks h1 \<and> sharing H = sharing h1
       \<and> ibufs H = (ibufs h1)(a := None)
       \<and> requests H = requests h1 \<and> alloc_ok H = alloc_ok h1
       \<and> externals H = externals h1 - set_option (metadata ib1)
            - (set_option (display_buffer_flags ib1) \<union> set_option (colormanage_cache ib1))
            - set_option (dds_data ib1)"
  using assms
  by (cases "dds_data ib1")
     (auto simp: load_live colormanage_cache_free_def IMB_metadata_free_def MEM_freeN_ImBuf_def
        free_dds_def store_def)

lemma releases_tail:
  assumes "blocks H = blocks h1" and "sharing H = sharing h1"
    and "ibufs H = (ibufs h1)(a := None)" and "externals H \<subseteq> externals h1"
  shows "releases h1 H" and "untouched A h1 H"
proof -
  have "ibufs H b = None
      \<or> (\<exists>ib ib'. ibufs h1 b = Some ib \<and> ibufs H b = Some ib'
            \<and> refcounter ib' \<le> refcounter ib
            \<and> (refcounter ib' < refcounter ib \<longrightarrow> 0 \<le> refcounter ib'))" for b
    using assms(3) by (cases "ibufs h1 b") auto
  then show "releases h1 H"
    using assms sharing_same [of h1] by (simp add: releases_def)
  show "untouched A h1 H"
    using assms(3) by (auto simp: untouched_def split: if_splits)
qed

lemma untouched_gone:
  "untouched {a} h h' \<Longrightarrow> ibufs h' a = None \<Longrightarrow> untouched {} h h'"
  unfolding untouched_def by (metis option.distinct(1) singletonD)

lemma body_decrement:
  assumes "ibufs h a = Some ib" and "0 < refcounter ib"
  shows "IMB_freeImBuf_body fc (Some a) h
     = Inr (store a (ib\<lparr>refcounter := refcounter ib - 1\<rparr>) h)"
  using assms by (simp add: IMB_freeImBuf_body_def load_live)

lemma body_teardown:
  assumes "ibufs h a = Some ib" and "\<not> 0 < refcounter ib"
  shows "IMB_freeImBuf_body fc (Some a) h
     = and_then (imb_freerectImbuf_all fc (Some a) h) (\<lambda>h1.
         and_then (load a h1) (\<lambda>ib1.
           and_then (colormanage_cache_free a (IMB_metadata_free (metadata ib1) h1)) (\<lambda>h2.
             and_then (load a h2) (\<lambda>ib2.
               Inr (MEM_freeN_ImBuf a
                      (case dds_data ib2 of None \<Rightarrow> h2 | Some d \<Rightarrow> free_dds d h2))))))"
  using assms by (simp add: IMB_freeImBuf_body_def load_live)

lemma teardown_effect:
  assumes fc: "release_fn fc"
    and run: "IMB_freeImBuf_body fc (Some a) h = Inr h'"
    and live: "ibufs h a = Some ib" and zero: "\<not> 0 < refcounter ib"
  shows "releases h h' \<and> untouched {} h h' \<and> ibufs h' a = None
     \<and> (\<forall>sl. slot_released (slot_of sl ib) h h')
     \<and> (\<forall>l c. l < IMB_MIPMAP_LEVELS \<and> mipmap ib l = Some c \<longrightarrow> released_child c h h')
     \<and> externals h' \<inter> (set_option (metadata ib) \<union> set_option (display_buffer_flags ib)
          \<union> set_option (colormanage_cache ib) \<union> set_option (dds_data ib)) = {}"
proof -
  from run obtain h1 where all: "imb_freerectImbuf_all fc (Some a) h = Inr h1"
    and tail: "and_then (load a h1) (\<lambda>ib1.
           and_then (colormanage_cache_free a (IMB_metadata_free (metadata ib1) h1)) (\<lambda>h2.
             and_then (load a h2) (\<lambda>ib2.
               Inr (MEM_freeN_ImBuf a
                      (case dds_data ib2 of None \<Rightarrow> h2 | Some d \<Rightarrow> free_dds d h2))))) = Inr h'"
    unfolding body_teardown [OF live zero] by (auto simp: and_then_eq_Inr)
  from freerectImbuf_all_effect [OF fc all live]
  obtain ib1 where r1: "releases h h1" and u1: "untouched {a} h h1"
    and f1: "\<forall>sl. slot_released (slot_of sl ib) h h1"
    and live1: "ibufs h1 a = Some ib1"
    and eq1: "ib1 = (torn_down ib)\<lparr>mipmap := mipmap ib1, refcounter := refcounter ib1\<rparr>"
    and kids: "\<forall>l c. l < IMB_MIPMAP_LEVELS \<and> mipmap ib l = Some c \<longrightarrow> released_child c h h1"
    by blast
  from teardown_tail [OF live1] tail
  have t: "blocks h' = blocks h1" "sharing h' = sharing h1"
      "ibufs h' = (ibufs h1)(a := None)"
      "externals h' = externals h1 - set_option (metadata ib1)
            - (set_option (display_buffer_flags ib1) \<union> set_option (colormanage_cache ib1))
            - set_option (dds_data ib1)"
    by auto
  have same: "metadata ib1 = metadata ib" "display_buffer_flags ib1 = display_buffer_flags ib"
      "colormanage_cache ib1 = colormanage_cache ib" "dds_data ib1 = dds_data ib"
    by (subst eq1, simp add: torn_down_def)+
  have sub: "externals h' \<subseteq> externals h1"
    using t(4) by auto
  note r2 = releases_tail [OF t(1,2,3) sub]
  have "releases h h'"
    using r1 r2(1) by (rule releases_trans)
  moreover have gone: "ibufs h' a = None"
    by (simp add: t(3))
  moreover have "untouched {} h h'"
    using untouched_trans [OF u1 r2(2)] gone by (rule untouched_gone)
  moreover have "\<forall>sl. slot_released (slot_of sl ib) h h'"
  proof
    fix sl
    from f1 have "slot_released (slot_of sl ib) h h1" by simp
    with releases_refl r1 show "slot_released (slot_of sl ib) h h'"
      using r2(1) by (rule slot_released_mono)
  qed
  moreover have "\<forall>l c. l < IMB_MIPMAP_LEVELS \<and> mipmap ib l = Some c \<longrightarrow> released_child c h h'"
  proof (intro allI impI)
    fix l c
    assume "l < IMB_MIPMAP_LEVELS \<and> mipmap ib l = Some c"
    with kids have "released_child c h h1" by simp
    with releases_refl show "released_child c h h'"
      using r2(1) by (rule released_child_mono)
  qed
  moreover have "externals h' \<inter> (set_option (metadata ib) \<union> set_option (display_buffer_flags ib)
          \<union> set_option (colormanage_cache ib) \<union> set_option (dds_data ib)) = {}"
    unfolding t(4) same by auto
  ultimately show ?thesis by blast
qed

lemma release_fn_body:
  assumes fc: "release_fn fc"
  shows "release_fn (IMB_freeImBuf_body fc)"
  unfolding release_fn_def
proof (intro allI impI)
  fix p h h'
  assume run: "IMB_freeImBuf_body fc p h = Inr h'"
  show "releases h h' \<and> untouched {} h h' \<and> (\<forall>c. p = Some c \<longrightarrow> released_child c h h')"
  proof (cases p)
    case None
    with run show ?thesis by (simp add: IMB_freeImBuf_body_def)
  next
    case (Some a)
    with run obtain ib where live: "ibufs h a = Some ib"
      by (auto simp: IMB_freeImBuf_body_def and_then_eq_Inr)
    show ?thesis
    proof (cases "0 < refcounter ib")
      case True
      with run Some live have h': "h' = store a (ib\<lparr>refcounter := refcounter ib - 1\<rparr>) h"
        by (simp add: body_decrement)
      have "releases h h'"
        unfolding h' using live by (rule releases_store) (simp add: True)
      moreover have "untouched {} h h'"
        unfolding h' using live by (rule untouched_store_refcounter)
      moreover have "released_child a h h'"
        unfolding h' using live True by (simp add: released_child_def)
      ultimately show ?thesis using Some by simp
    next
      case False
      from teardown_effect [OF fc run [unfolded Some] live False] Some
      show ?thesis by (simp add: released_child_def)
    qed
  qed
qed

lemma release_fn_IMB_freeImBuf: "release_fn (IMB_freeImBuf fuel)"
proof (induction fuel)
  case 0
  have "release_fn (\<lambda>c h'. Inl OutOfFuel)"
    by (simp add: release_fn_def)
  then have "release_fn (IMB_freeImBuf_body (\<lambda>c h'. Inl OutOfFuel))"
    by (rule release_fn_body)
  then show ?case
    by (simp add: release_fn_def)
next
  case (Suc fuel)
  then have "release_fn (IMB_freeImBuf_body (IMB_freeImBuf fuel))"
    by (rule release_fn_body)
  then show ?case
    by (simp add: release_fn_def)
qed

lemma slot_update_fields [simp]:
  "mipmap (slot_update sl b ib) = mipmap ib"
  "miptot (slot_update sl b ib) = miptot ib"
  "refcounter (slot_update sl b ib) = refcounter ib"
  "flags (slot_update sl b ib) = flags ib"
  "metadata (slot_update sl b ib) = metadata ib"
  "dds_data (slot_update sl b ib) = dds_data ib"
  "colormanage_cache (slot_update sl b ib) = colormanage_cache ib"
  "display_buffer_flags (slot_update sl b ib) = display_buffer_flags ib"
  by (cases sl; simp)+


























subsection \<open>Duplication\<close>

lemma size_t_of_int_1 [simp]: "size_t_of_int 1 = 1"
  by (simp add: size_t_of_int_def)

lemma dup_flags_depth: "dup_flags depth_image = 96"
  by (simp add: dup_flags_def depth_image_def zero_ImBuf_def zero_buffer_def IB_rectfloat_def IB_zbuffloat_def)

lemma alloc_depth:
  "IMB_allocImBuf fuel 1 1 32 96 heap_depth
     = Inr (Some 3,
         heap_depth\<lparr>blocks := ((blocks heap_depth)(4 \<mapsto> replicate 16 0))(5 \<mapsto> replicate 4 0),
                    ibufs := (ibufs heap_depth)(3 \<mapsto>
                      zero_ImBuf\<lparr>dim_x := 1, dim_y := 1, planes := 32, channels := 4, flags := 96,
                        float_buffer := \<lparr>data = Some 4, ownership = IB_TAKE_OWNERSHIP,
                                  implicit_sharing = None\<rparr>,
                        float_z_buffer := \<lparr>data = Some 5, ownership = IB_TAKE_OWNERSHIP,
                                    implicit_sharing = None\<rparr>\<rparr>),
                    requests := 6\<rparr>)"
  by (simp add: IMB_allocImBuf_def MEM_cnew_ImBuf_def heap_depth_def IMB_initImBuf_def nonnull_def
     load_live IB_rect_def IB_zbuf_def IB_rectfloat_def IB_zbuffloat_def imb_addrectfloatImBuf_def zero_ImBuf_def zero_buffer_def
     alloc_slot_def imb_alloc_buffer_def imb_alloc_pixels_def SIZE_MAX_def MEM_callocN_def modify_def store_def addzbuffloatImBuf_def
     IMB_freezbuffloatImBuf_def free_slot_def clear_flag_def set_flag_def imb_free_buffer_def)

lemma replicate_4: "replicate 4 x = [x, x, x, x]"
  by (simp add: eval_nat_numeral)

text \<open>
  Claim C3. Duplication of \<open>depth_image\<close> succeeds, but the float depth slot of the duplicate
  is not a copy of the source's: under \<open>IB_zbuffloat\<close> the code copies the float colour slot a
  second time, so the float depth of the duplicate stays as the allocator zeroed it.
\<close>

theorem IMB_dupImBuf_depth_float_not_copied:
  "\<exists>h' ib'. IMB_dupImBuf 0 (Some 0) heap_depth = Inr (Some 3, h') \<and> ibufs h' 3 = Some ib'
      \<and> slot_bytes (float_z_buffer depth_image) heap_depth = Some [9, 9, 9, 9]
      \<and> slot_bytes (float_z_buffer ib') h' = Some [0, 0, 0, 0]
      \<and> slot_bytes (float_buffer ib') h' = slot_bytes (float_buffer depth_image) heap_depth"
  by (simp add: IMB_dupImBuf_def dup_flags_def depth_image_def Let_def
     IMB_allocImBuf_def MEM_cnew_ImBuf_def heap_depth_def IMB_initImBuf_def nonnull_def
     IB_rect_def IB_zbuf_def IB_rectfloat_def IB_zbuffloat_def imb_addrectfloatImBuf_def
     zero_ImBuf_def zero_buffer_def alloc_slot_def imb_alloc_buffer_def imb_alloc_pixels_def
     SIZE_MAX_def MEM_callocN_def modify_def store_def addzbuffloatImBuf_def
     IMB_freezbuffloatImBuf_def free_slot_def clear_flag_def set_flag_def imb_free_buffer_def
     copy_pixels_def memcpy_def slot_bytes_def load_def replicate_4)

subsection \<open>The flag invariant\<close>

lemma flags_ok_all: "flags_ok ib \<longleftrightarrow> (\<forall>sl. flag_matches sl ib)"
proof
  assume ok: "flags_ok ib"
  show "\<forall>sl. flag_matches sl ib"
  proof
    fix sl
    from ok show "flag_matches sl ib"
      by (cases sl) (simp_all add: flags_ok_def)
  qed
next
  assume "\<forall>sl. flag_matches sl ib"
  then show "flags_ok ib"
    by (simp add: flags_ok_def)
qed

lemma slot_of_update [simp]:
  "slot_of sl (slot_update sl' b ib) = (if sl = sl' then b else slot_of sl ib)"
  by (cases sl; cases sl') simp_all

lemma slot_of_bookkeeping [simp]:
  "slot_of sl (ib\<lparr>flags := f\<rparr>) = slot_of sl ib"
  "slot_of sl (ib\<lparr>refcounter := r\<rparr>) = slot_of sl ib"
  "slot_of sl (ib\<lparr>mipmap := m\<rparr>) = slot_of sl ib"
  "slot_of sl (ib\<lparr>miptot := t\<rparr>) = slot_of sl ib"
  "slot_of sl (ib\<lparr>channels := c\<rparr>) = slot_of sl ib"
  "slot_of sl (ib\<lparr>encoded_size := n\<rparr>) = slot_of sl ib"
  "slot_of sl (ib\<lparr>encoded_buffer_size := n'\<rparr>) = slot_of sl ib"
  "slot_of sl (ib\<lparr>metadata := md\<rparr>) = slot_of sl ib"
  by (cases sl; simp)+

lemma slot_flag_nonzero [simp]: "slot_flag sl \<noteq> 0"
  by (cases sl) simp_all

lemma slot_flag_disjoint: "sl \<noteq> sl' \<Longrightarrow> slot_flag sl AND slot_flag sl' = 0"
  by (cases sl; cases sl') simp_all

lemma flag_matches_cong:
  "flags ib' AND slot_flag sl = flags ib AND slot_flag sl \<Longrightarrow>
   (data (slot_of sl ib') = None) = (data (slot_of sl ib) = None) \<Longrightarrow>
   flag_matches sl ib' = flag_matches sl ib"
  by (simp add: flag_matches_def)

text \<open>The three ways a slot operation leaves the struct.\<close>

lemma flags_ok_cleared:
  assumes "flags_ok ib" and "data b = None"
    and "flags ib' = flags ib AND NOT (slot_flag sl)"
    and "\<And>sl'. slot_of sl' ib' = (if sl' = sl then b else slot_of sl' ib)"
  shows "flags_ok ib'"
  unfolding flags_ok_all
proof
  fix sl'
  show "flag_matches sl' ib'"
  proof (cases "sl' = sl")
    case True
    with assms(2-4) show ?thesis
      by (simp add: flag_matches_def flag_clear)
  next
    case False
    then have "slot_flag sl AND slot_flag sl' = 0"
      by (simp add: slot_flag_disjoint)
    then have "flags ib' AND slot_flag sl' = flags ib AND slot_flag sl'"
      by (simp add: assms(3) flag_other_clear)
    moreover from False have "slot_of sl' ib' = slot_of sl' ib"
      by (simp add: assms(4))
    ultimately have "flag_matches sl' ib' = flag_matches sl' ib"
      by (simp add: flag_matches_def)
    with assms(1) show ?thesis
      by (simp add: flags_ok_all)
  qed
qed

lemma flags_ok_set:
  assumes "flags_ok ib" and "data b \<noteq> None"
    and "flags ib' = flags ib OR slot_flag sl"
    and "\<And>sl'. slot_of sl' ib' = (if sl' = sl then b else slot_of sl' ib)"
  shows "flags_ok ib'"
  unfolding flags_ok_all
proof
  fix sl'
  show "flag_matches sl' ib'"
  proof (cases "sl' = sl")
    case True
    with assms(2-4) show ?thesis
      by (simp add: flag_matches_def flag_set)
  next
    case False
    then have "slot_flag sl AND slot_flag sl' = 0"
      by (simp add: slot_flag_disjoint)
    then have "flags ib' AND slot_flag sl' = flags ib AND slot_flag sl'"
      by (simp add: assms(3) flag_other_set)
    moreover from False have "slot_of sl' ib' = slot_of sl' ib"
      by (simp add: assms(4))
    ultimately have "flag_matches sl' ib' = flag_matches sl' ib"
      by (simp add: flag_matches_def)
    with assms(1) show ?thesis
      by (simp add: flags_ok_all)
  qed
qed

lemma flags_ok_same:
  assumes "flags_ok ib"
    and "flags ib' = flags ib"
    and "\<And>sl. (data (slot_of sl ib') = None) = (data (slot_of sl ib) = None)"
  shows "flags_ok ib'"
  unfolding flags_ok_all
proof
  fix sl
  have "flag_matches sl ib' = flag_matches sl ib"
    by (simp add: flag_matches_def assms(2,3))
  with assms(1) show "flag_matches sl ib'"
    by (simp add: flags_ok_all)
qed

lemma flags_ok_refcounter [simp]: "flags_ok (ib\<lparr>refcounter := r\<rparr>) = flags_ok ib"
  by (simp add: flags_ok_def flag_matches_def)

lemma flags_ok_zero [simp]: "flags_ok zero_ImBuf"
  by (simp add: flags_ok_def flag_matches_def zero_ImBuf_def zero_buffer_def)

lemma heap_flags_ok_step:
  assumes "heap_flags_ok h" and "untouched {a} h h'"
    and "\<And>ib'. ibufs h' a = Some ib' \<Longrightarrow> flags_ok ib'"
  shows "heap_flags_ok h'"
  unfolding heap_flags_ok_def
proof (intro allI impI)
  fix b ib'
  assume live: "ibufs h' b = Some ib'"
  show "flags_ok ib'"
  proof (cases "b = a")
    case True
    with live assms(3) show ?thesis by simp
  next
    case False
    then have "b \<notin> {a}" by simp
    from untouchedD [OF assms(2) this live]
    obtain ib where "ibufs h b = Some ib" and eq: "ib' = ib\<lparr>refcounter := refcounter ib'\<rparr>"
      by blast
    with assms(1) have "flags_ok ib"
      by (simp add: heap_flags_ok_def)
    then have "flags_ok (ib\<lparr>refcounter := refcounter ib'\<rparr>)"
      by simp
    with eq show ?thesis by simp
  qed
qed

lemma heap_flags_ok_untouched:
  assumes "heap_flags_ok h" and "untouched {} h h'"
  shows "heap_flags_ok h'"
  unfolding heap_flags_ok_def
proof (intro allI impI)
  fix b ib'
  assume live: "ibufs h' b = Some ib'"
  have "b \<notin> {}" by simp
  from untouchedD [OF assms(2) this live]
  obtain ib where "ibufs h b = Some ib" and eq: "ib' = ib\<lparr>refcounter := refcounter ib'\<rparr>"
    by blast
  with assms(1) have "flags_ok ib"
    by (simp add: heap_flags_ok_def)
  then have "flags_ok (ib\<lparr>refcounter := refcounter ib'\<rparr>)"
    by simp
  with eq show "flags_ok ib'" by simp
qed

lemma heap_flags_okD: "heap_flags_ok h \<Longrightarrow> ibufs h a = Some ib \<Longrightarrow> flags_ok ib"
  by (simp add: heap_flags_ok_def)

lemma heap_flags_ok_update:
  assumes "heap_flags_ok h" and "ibufs h' = (ibufs h)(a \<mapsto> ib')" and "flags_ok ib'"
  shows "heap_flags_ok h'"
  using assms by (simp add: heap_flags_ok_def)

lemma modify_effect:
  "modify a f h = Inr h' \<Longrightarrow> \<exists>ib. ibufs h a = Some ib \<and> h' = store a (f ib) h"
  by (auto simp: modify_def and_then_eq_Inr)

lemma free_slot_effect:
  "free_slot sl a h = Inr h' \<Longrightarrow>
     \<exists>ib. ibufs h a = Some ib \<and> ibufs h' = (ibufs h)(a \<mapsto> slot_update sl zero_buffer ib)"
proof -
  assume run: "free_slot sl a h = Inr h'"
  then obtain ib where live: "ibufs h a = Some ib"
    by (auto simp: free_slot_def and_then_eq_Inr)
  with run show ?thesis
    by (auto simp: free_slot_run)
qed

lemma torn_down_flags_ok [simp]: "flags_ok (torn_down ib)"
  by (simp add: flags_ok_def flag_matches_def torn_down_def zero_buffer_def flag_clear
      flag_other_clear)

lemma flags_ok_bookkeeping [simp]:
  "flags_ok (ib\<lparr>mipmap := m\<rparr>) = flags_ok ib"
  "flags_ok (ib\<lparr>miptot := t\<rparr>) = flags_ok ib"
  "flags_ok (ib\<lparr>channels := c\<rparr>) = flags_ok ib"
  "flags_ok (ib\<lparr>encoded_size := n\<rparr>) = flags_ok ib"
  "flags_ok (ib\<lparr>encoded_buffer_size := n'\<rparr>) = flags_ok ib"
  "flags_ok (ib\<lparr>metadata := md\<rparr>) = flags_ok ib"
  by (simp_all add: flags_ok_def flag_matches_def)

lemma flags_ok_free_clear:
  "flags_ok ib \<Longrightarrow>
     flags_ok ((slot_update sl zero_buffer ib)\<lparr>flags := flags ib AND NOT (slot_flag sl)\<rparr>)"
  by (rule flags_ok_cleared [where b = zero_buffer and sl = sl and ib = ib])
     (simp_all add: zero_buffer_def)

subsection \<open>Release and retain\<close>

lemma IMB_freeImBuf_keeps_flags:
  assumes "heap_flags_ok h" and "IMB_freeImBuf fuel p h = Inr h'"
  shows "heap_flags_ok h'"
proof -
  from release_fn_IMB_freeImBuf [of fuel] assms(2) have "untouched {} h h'"
    unfolding release_fn_def by blast
  with assms(1) show ?thesis
    by (rule heap_flags_ok_untouched)
qed

lemma IMB_refImBuf_keeps_flags:
  assumes "heap_flags_ok h" and "IMB_refImBuf p h = Inr h'"
  shows "heap_flags_ok h'"
proof -
  from assms(2) obtain a ib where live: "ibufs h a = Some ib"
    and h': "h' = store a (ib\<lparr>refcounter := refcounter ib + 1\<rparr>) h"
    by (auto simp: IMB_refImBuf_def nonnull_def and_then_eq_Inr split: option.splits if_splits)
  from live have "untouched {} h h'"
    unfolding h' by (rule untouched_store_refcounter)
  with assms(1) show ?thesis
    by (rule heap_flags_ok_untouched)
qed

subsection \<open>Freeing slots\<close>

lemma freerect_keeps_flags:
  assumes fc: "release_fn fc" and ok: "heap_flags_ok h"
    and run: "and_then (free_slot sl a h) (\<lambda>h1.
            and_then (imb_freemipmapImBuf fc (Some a) h1) (\<lambda>h2.
              clear_flag (slot_flag sl) a h2)) = Inr h'"
  shows "heap_flags_ok h'"
proof -
  from run obtain ib where live: "ibufs h a = Some ib"
    by (auto simp: and_then_eq_Inr dest: free_slot_effect)
  from freerect_effect [OF fc run live]
  obtain ib' where u: "untouched {a} h h'" and live': "ibufs h' a = Some ib'"
    and eq: "ib' = (slot_update sl zero_buffer ib)
                   \<lparr>flags := flags ib AND NOT (slot_flag sl),
                    mipmap := mipmap ib', miptot := 0, refcounter := refcounter ib'\<rparr>"
    by blast
  from ok live have "flags_ok ib"
    by (rule heap_flags_okD)
  then have "flags_ok ((slot_update sl zero_buffer ib)
      \<lparr>flags := flags ib AND NOT (slot_flag sl)\<rparr>)"
    by (rule flags_ok_free_clear)
  then have "flags_ok ((slot_update sl zero_buffer ib)
                   \<lparr>flags := flags ib AND NOT (slot_flag sl),
                    mipmap := mipmap ib', miptot := 0, refcounter := refcounter ib'\<rparr>)"
    by simp
  with eq have "flags_ok ib'" by simp
  with ok u live' show ?thesis
    by (intro heap_flags_ok_step [OF ok u]) simp
qed

lemma imb_freerectImBuf_keeps_flags:
  assumes "heap_flags_ok h" and "imb_freerectImBuf (IMB_freeImBuf fuel) p h = Inr h'"
  shows "heap_flags_ok h'"
proof (cases p)
  case None
  with assms show ?thesis by (simp add: imb_freerectImBuf_def)
next
  case (Some a)
  with assms(2) show ?thesis
    using freerect_keeps_flags [OF release_fn_IMB_freeImBuf assms(1), of ByteBuffer a fuel h']
    by (simp add: imb_freerectImBuf_def)
qed

lemma imb_freerectfloatImBuf_keeps_flags:
  assumes "heap_flags_ok h" and "imb_freerectfloatImBuf (IMB_freeImBuf fuel) p h = Inr h'"
  shows "heap_flags_ok h'"
proof (cases p)
  case None
  with assms show ?thesis by (simp add: imb_freerectfloatImBuf_def)
next
  case (Some a)
  with assms(2) show ?thesis
    using freerect_keeps_flags [OF release_fn_IMB_freeImBuf assms(1), of FloatBuffer a fuel h']
    by (simp add: imb_freerectfloatImBuf_def)
qed

lemma imb_freemipmapImBuf_keeps_flags:
  assumes "heap_flags_ok h" and "imb_freemipmapImBuf (IMB_freeImBuf fuel) p h = Inr h'"
  shows "heap_flags_ok h'"
proof -
  from assms(2) obtain a where p: "p = Some a"
    by (auto simp: imb_freemipmapImBuf_def nonnull_def and_then_eq_Inr split: option.splits)
  from assms(2) obtain ib where live: "ibufs h a = Some ib"
    unfolding p imb_freemipmapImBuf_def
    by (cases "ibufs h a")
       (auto simp: nonnull_def and_then_eq_Inr IMB_MIPMAP_LEVELS_def upt_rec [of 0]
          load_def modify_def dest: modify_effect split: option.splits)
  from freemipmap_effect [OF release_fn_IMB_freeImBuf assms(2) [unfolded p] live]
  obtain ib' where u: "untouched {a} h h'" and live': "ibufs h' a = Some ib'"
    and eq: "ib' = ib\<lparr>mipmap := mipmap ib', miptot := 0, refcounter := refcounter ib'\<rparr>"
    by blast
  from assms(1) live have "flags_ok ib"
    by (rule heap_flags_okD)
  then have "flags_ok (ib\<lparr>mipmap := mipmap ib', miptot := 0, refcounter := refcounter ib'\<rparr>)"
    by simp
  with eq have "flags_ok ib'" by simp
  with live' show ?thesis
    by (intro heap_flags_ok_step [OF assms(1) u]) simp
qed

lemma free_plain_keeps_flags:
  assumes ok: "heap_flags_ok h"
    and run: "and_then (free_slot sl a h) (\<lambda>h1. clear_flag (slot_flag sl) a h1) = Inr h'"
  shows "heap_flags_ok h' \<and> (\<exists>ib'. ibufs h' a = Some ib' \<and> data (slot_of sl ib') = None)"
proof -
  from run obtain ib where live: "ibufs h a = Some ib"
    by (auto simp: and_then_eq_Inr dest: free_slot_effect)
  note e = free_plain_effect [OF run live]
  from ok live have "flags_ok ib"
    by (rule heap_flags_okD)
  then have "flags_ok ((slot_update sl zero_buffer ib)
      \<lparr>flags := flags ib AND NOT (slot_flag sl)\<rparr>)"
    by (rule flags_ok_free_clear)
  with e(4) have "heap_flags_ok h'"
    by (intro heap_flags_ok_step [OF ok e(2)]) simp
  moreover have "data (slot_of sl ((slot_update sl zero_buffer ib)
      \<lparr>flags := flags ib AND NOT (slot_flag sl)\<rparr>)) = None"
    by (cases sl) (simp_all add: zero_buffer_def)
  ultimately show ?thesis
    using e(4) by simp
qed

lemma IMB_freezbufImBuf_keeps_flags:
  assumes "heap_flags_ok h" and "IMB_freezbufImBuf p h = Inr h'"
  shows "heap_flags_ok h'"
proof (cases p)
  case None
  with assms show ?thesis by (simp add: IMB_freezbufImBuf_def)
next
  case (Some a)
  with assms(2) show ?thesis
    using free_plain_keeps_flags [OF assms(1), of ZBuffer a h']
    by (simp add: IMB_freezbufImBuf_def)
qed

lemma IMB_freezbuffloatImBuf_keeps_flags:
  assumes "heap_flags_ok h" and "IMB_freezbuffloatImBuf p h = Inr h'"
  shows "heap_flags_ok h'"
proof (cases p)
  case None
  with assms show ?thesis by (simp add: IMB_freezbuffloatImBuf_def)
next
  case (Some a)
  with assms(2) show ?thesis
    using free_plain_keeps_flags [OF assms(1), of FloatZBuffer a h']
    by (simp add: IMB_freezbuffloatImBuf_def)
qed

lemma freeencoded_keeps_flags:
  assumes ok: "heap_flags_ok h" and run: "freeencodedbufferImBuf p h = Inr h'"
  shows "heap_flags_ok h'
     \<and> (\<forall>a. p = Some a \<longrightarrow> (\<exists>ib'. ibufs h' a = Some ib' \<and> data (encoded_buffer ib') = None))"
proof (cases p)
  case None
  with assms show ?thesis by (simp add: freeencodedbufferImBuf_def)
next
  case (Some a)
  from run obtain ib where live: "ibufs h a = Some ib"
    unfolding Some freeencodedbufferImBuf_def
    by (auto simp: and_then_eq_Inr dest: free_slot_effect)
  note e = freeencoded_effect [OF run [unfolded Some] live]
  from ok live have "flags_ok ib"
    by (rule heap_flags_okD)
  then have "flags_ok ((slot_update EncodedBuffer zero_buffer ib)
      \<lparr>flags := flags ib AND NOT (slot_flag EncodedBuffer)\<rparr>)"
    by (rule flags_ok_free_clear)
  then have "flags_ok (ib\<lparr>encoded_buffer := zero_buffer, encoded_buffer_size := 0,
                 encoded_size := 0, flags := flags ib AND NOT IB_mem\<rparr>)"
    by (simp add: flags_ok_def flag_matches_def)
  with e(4) have "heap_flags_ok h'"
    by (intro heap_flags_ok_step [OF ok e(2)]) simp
  with e(4) Some show ?thesis
    by (simp add: zero_buffer_def)
qed

lemma imb_freerectImbuf_all_keeps_flags:
  assumes ok: "heap_flags_ok h"
    and run: "imb_freerectImbuf_all (IMB_freeImBuf fuel) p h = Inr h'"
  shows "heap_flags_ok h'"
proof -
  from run obtain h1 h2 h3 h4 where
    1: "imb_freerectImBuf (IMB_freeImBuf fuel) p h = Inr h1" and
    2: "imb_freerectfloatImBuf (IMB_freeImBuf fuel) p h1 = Inr h2" and
    3: "IMB_freezbufImBuf p h2 = Inr h3" and
    4: "IMB_freezbuffloatImBuf p h3 = Inr h4" and
    5: "freeencodedbufferImBuf p h4 = Inr h'"
    by (auto simp: imb_freerectImbuf_all_def and_then_eq_Inr)
  from ok 1 have "heap_flags_ok h1" by (rule imb_freerectImBuf_keeps_flags)
  then have "heap_flags_ok h2" using 2 by (rule imb_freerectfloatImBuf_keeps_flags)
  then have "heap_flags_ok h3" using 3 by (rule IMB_freezbufImBuf_keeps_flags)
  then have "heap_flags_ok h4" using 4 by (rule IMB_freezbuffloatImBuf_keeps_flags)
  then show ?thesis using 5 by (simp add: freeencoded_keeps_flags)
qed

lemma heap_flags_ok_same_ibufs: "ibufs h' = ibufs h \<Longrightarrow> heap_flags_ok h' = heap_flags_ok h"
  by (simp add: heap_flags_ok_def)

lemma modify_keeps_flags:
  assumes "heap_flags_ok h" and "modify a f h = Inr h'"
    and "\<And>ib. flags_ok ib \<Longrightarrow> flags_ok (f ib)"
  shows "heap_flags_ok h'"
proof -
  from modify_effect [OF assms(2)]
  obtain ib where live: "ibufs h a = Some ib" and h': "h' = store a (f ib) h"
    by (elim exE conjE)
  from assms(1) live have "flags_ok ib"
    by (rule heap_flags_okD)
  then have "flags_ok (f ib)"
    by (rule assms(3))
  moreover have "ibufs h' = (ibufs h)(a \<mapsto> f ib)"
    by (simp add: h')
  ultimately show ?thesis
    using assms(1) heap_flags_ok_update by blast
qed

lemma memcpy_ibufs: "memcpy dst src n h = Inr h' \<Longrightarrow> ibufs h' = ibufs h"
  by (auto simp: memcpy_def split: option.splits if_splits)

lemma imb_alloc_buffer_ibufs:
  "imb_alloc_buffer b x y c t h = Inr (ok, b', h') \<Longrightarrow>
     ibufs h' = ibufs h \<and> (data b' \<noteq> None) = ok"
  by (auto simp: imb_alloc_buffer_def imb_alloc_pixels_def Let_def MEM_callocN_def
      and_then_eq_Inr split: if_splits prod.splits)

lemma alloc_slot_step:
  assumes "alloc_slot sl a x y c t h = Inr (ok, h')"
  shows "\<exists>ib b. ibufs h a = Some ib \<and> ibufs h' = (ibufs h)(a \<mapsto> slot_update sl b ib)
     \<and> (data b \<noteq> None) = ok"
proof -
  from alloc_slot_outcome [OF assms]
  obtain ib where live: "ibufs h a = Some ib"
    and eq: "ibufs h' = (ibufs h)(a \<mapsto> slot_update sl
        (if ok then \<lparr>data = Some (requests h), ownership = IB_TAKE_OWNERSHIP,
                       implicit_sharing = None\<rparr>
         else (slot_of sl ib)\<lparr>data := None\<rparr>) ib)"
    by blast
  let ?b = "if ok then \<lparr>data = Some (requests h), ownership = IB_TAKE_OWNERSHIP,
                       implicit_sharing = None\<rparr>
         else (slot_of sl ib)\<lparr>data := None\<rparr>"
  have "(data ?b \<noteq> None) = ok" by simp
  with live eq show ?thesis by blast
qed

text \<open>
  Allocation into an empty slot: a refused allocation leaves the invariant as it is, and a
  granted one restores it as soon as the flag of the slot is set.
\<close>

lemma alloc_set_keeps_flags:
  assumes ok: "heap_flags_ok h" and live: "ibufs h a = Some ib"
    and empty: "data (slot_of sl ib) = None"
    and run: "alloc_slot sl a x y c t h = Inr (granted, h1)"
  shows "\<not> granted \<Longrightarrow> heap_flags_ok h1"
    and "granted \<Longrightarrow> modify a f h1 = Inr h2 \<Longrightarrow>
           (\<And>ib. flags (f ib) = flags ib OR slot_flag sl) \<Longrightarrow>
           (\<And>ib sl'. slot_of sl' (f ib) = slot_of sl' ib) \<Longrightarrow> heap_flags_ok h2"
proof -
  from alloc_slot_step [OF run] live
  obtain b where h1: "ibufs h1 = (ibufs h)(a \<mapsto> slot_update sl b ib)"
    and b: "(data b \<noteq> None) = granted"
    by auto
  from ok live have fo: "flags_ok ib"
    by (rule heap_flags_okD)
  {
    assume "\<not> granted"
    with b have "data b = None" by simp
    with empty have "flags_ok (slot_update sl b ib)"
      by (intro flags_ok_same [OF fo]) simp_all
    with ok h1 show "heap_flags_ok h1"
      by (rule heap_flags_ok_update)
  }
  {
    assume g: granted and m: "modify a f h1 = Inr h2"
      and f1: "\<And>ib. flags (f ib) = flags ib OR slot_flag sl"
      and f2: "\<And>ib sl'. slot_of sl' (f ib) = slot_of sl' ib"
    from modify_effect [OF m] h1
    have h2: "h2 = store a (f (slot_update sl b ib)) h1"
      by auto
    from g b have "data b \<noteq> None" by simp
    then have "flags_ok (f (slot_update sl b ib))"
      by (intro flags_ok_set [OF fo, where b = b and sl = sl]) (simp_all add: f1 f2)
    moreover have "ibufs h2 = (ibufs h)(a \<mapsto> f (slot_update sl b ib))"
      unfolding h2 by (simp add: h1)
    ultimately show "heap_flags_ok h2"
      using heap_flags_ok_update [OF ok] by blast
  }
qed

lemma addz_keeps_flags:
  assumes ok: "heap_flags_ok h"
    and run: "and_then (free_slot sl a h) (\<lambda>h1. clear_flag (slot_flag sl) a h1) = Inr h1"
    and alloc: "alloc_slot sl a x y c t h1 = Inr (granted, h2)"
  shows "\<not> granted \<Longrightarrow> heap_flags_ok h2"
    and "granted \<Longrightarrow> set_flag (slot_flag sl) a h2 = Inr h3 \<Longrightarrow> heap_flags_ok h3"
proof -
  from free_plain_keeps_flags [OF ok run]
  obtain ib1 where ok1: "heap_flags_ok h1" and live1: "ibufs h1 a = Some ib1"
    and empty: "data (slot_of sl ib1) = None"
    by blast
  note a = alloc_set_keeps_flags [OF ok1 live1 empty alloc]
  show "\<not> granted \<Longrightarrow> heap_flags_ok h2"
    by (rule a(1))
  {
    assume g: granted and s: "set_flag (slot_flag sl) a h2 = Inr h3"
    from s have "modify a (\<lambda>ib. ib\<lparr>flags := flags ib OR slot_flag sl\<rparr>) h2 = Inr h3"
      by (simp add: set_flag_def)
    with g show "heap_flags_ok h3"
      by (rule a(2) [where f = "\<lambda>ib. ib\<lparr>flags := flags ib OR slot_flag sl\<rparr>"]) simp_all
  }
qed

lemma addzbufImBuf_keeps_flags:
  assumes ok: "heap_flags_ok h" and run: "addzbufImBuf p h = Inr (r, h')"
  shows "heap_flags_ok h'"
proof (cases p)
  case None
  with assms show ?thesis by (simp add: addzbufImBuf_def)
next
  case (Some a)
  from run obtain h1 and ib1 :: ImBuf and granted h2 where
    1: "and_then (free_slot ZBuffer a h) (\<lambda>h1. clear_flag (slot_flag ZBuffer) a h1) = Inr h1"
    and 2: "alloc_slot ZBuffer a (dim_x ib1) (dim_y ib1) 1 4 h1 = Inr (granted, h2)"
    and 3: "(\<not> granted \<and> h' = h2) \<or> (granted \<and> set_flag (slot_flag ZBuffer) a h2 = Inr h')"
    unfolding Some addzbufImBuf_def IMB_freezbufImBuf_def
    by (auto simp: and_then_eq_Inr split: if_splits)
  from 3 addz_keeps_flags [OF ok 1 2] show ?thesis
    by auto
qed

lemma addzbuffloatImBuf_keeps_flags:
  assumes ok: "heap_flags_ok h" and run: "addzbuffloatImBuf p h = Inr (r, h')"
  shows "heap_flags_ok h'"
proof (cases p)
  case None
  with assms show ?thesis by (simp add: addzbuffloatImBuf_def)
next
  case (Some a)
  from run obtain h1 and ib1 :: ImBuf and granted h2 where
    1: "and_then (free_slot FloatZBuffer a h) (\<lambda>h1. clear_flag (slot_flag FloatZBuffer) a h1)
          = Inr h1"
    and 2: "alloc_slot FloatZBuffer a (dim_x ib1) (dim_y ib1) 1 4 h1 = Inr (granted, h2)"
    and 3: "(\<not> granted \<and> h' = h2)
        \<or> (granted \<and> set_flag (slot_flag FloatZBuffer) a h2 = Inr h')"
    unfolding Some addzbuffloatImBuf_def IMB_freezbuffloatImBuf_def
    by (auto simp: and_then_eq_Inr split: if_splits)
  from 3 addz_keeps_flags [OF ok 1 2] show ?thesis
    by auto
qed

lemma imb_addencodedbufferImBuf_keeps_flags:
  assumes ok: "heap_flags_ok h" and run: "imb_addencodedbufferImBuf p h = Inr (r, h')"
  shows "heap_flags_ok h'"
proof (cases p)
  case None
  with assms show ?thesis by (simp add: imb_addencodedbufferImBuf_def)
next
  case (Some a)
  let ?f = "\<lambda>ib. (if encoded_buffer_size ib = 0 then ib\<lparr>encoded_buffer_size := 10000\<rparr> else ib)
                  \<lparr>encoded_size := 0\<rparr>"
  from run obtain h1 h2 and ib2 :: ImBuf and granted h3 where
    1: "freeencodedbufferImBuf (Some a) h = Inr h1"
    and 2: "modify a ?f h1 = Inr h2"
    and live2: "ibufs h2 a = Some ib2"
    and 3: "alloc_slot EncodedBuffer a (encoded_buffer_size ib2) 1 1 1 h2 = Inr (granted, h3)"
    and 4: "(\<not> granted \<and> h' = h3)
        \<or> (granted \<and> set_flag (slot_flag EncodedBuffer) a h3 = Inr h')"
    unfolding Some imb_addencodedbufferImBuf_def
    by (auto simp: and_then_eq_Inr split: if_splits)
  from freeencoded_keeps_flags [OF ok 1]
  obtain ib1 where ok1: "heap_flags_ok h1" and live1: "ibufs h1 a = Some ib1"
    and empty1: "data (encoded_buffer ib1) = None"
    by blast
  from ok1 2 have ok2: "heap_flags_ok h2"
    by (rule modify_keeps_flags) simp
  from modify_effect [OF 2] live1 live2 have "ib2 = ?f ib1"
    by auto
  with empty1 have empty2: "data (slot_of EncodedBuffer ib2) = None"
    by simp
  note a = alloc_set_keeps_flags [OF ok2 live2 empty2 3]
  from 4 show ?thesis
  proof
    assume "\<not> granted \<and> h' = h3"
    with a(1) show ?thesis by simp
  next
    assume g: "granted \<and> set_flag (slot_flag EncodedBuffer) a h3 = Inr h'"
    then have "modify a (\<lambda>ib. ib\<lparr>flags := flags ib OR slot_flag EncodedBuffer\<rparr>) h3 = Inr h'"
      by (simp add: set_flag_def)
    with g show ?thesis
      by (intro a(2) [where f = "\<lambda>ib. ib\<lparr>flags := flags ib OR slot_flag EncodedBuffer\<rparr>"])
         simp_all
  qed
qed

lemma load_dead: "ibufs h a = None \<Longrightarrow> load a h = Inl DanglingPointer"
  by (simp add: load_def)

lemma enlarge_true_live:
  assumes "imb_enlargeencodedbufferImBuf p h = Inr (True, h')"
  shows "\<exists>a ib. p = Some a \<and> ibufs h a = Some ib
     \<and> \<not> encoded_buffer_size ib < encoded_size ib \<and> alloc_ok h (requests h)"
proof -
  from assms obtain a where p: "p = Some a"
    by (cases p) (simp_all add: imb_enlargeencodedbufferImBuf_def)
  from assms obtain ib where live: "ibufs h a = Some ib"
    unfolding p by (cases "ibufs h a") (simp_all add: imb_enlargeencodedbufferImBuf_def load_dead)
  have par: "\<not> encoded_buffer_size ib < encoded_size ib"
  proof
    assume "encoded_buffer_size ib < encoded_size ib"
    with live have "imb_enlargeencodedbufferImBuf (Some a) h = Inr (False, h)"
      by (rule enlarge_parameter_error)
    with assms p show False by simp
  qed
  have grant: "alloc_ok h (requests h)"
  proof (rule ccontr)
    assume "\<not> alloc_ok h (requests h)"
    with live par have "imb_enlargeencodedbufferImBuf (Some a) h
        = Inr (False, h\<lparr>requests := Suc (requests h)\<rparr>)"
      by (rule enlarge_alloc_refused_run)
    with assms p show False by simp
  qed
  from p live par grant show ?thesis by blast
qed

lemma heap_flags_ok_same: "ibufs h' = ibufs h \<Longrightarrow> heap_flags_ok h \<Longrightarrow> heap_flags_ok h'"
  by (simp add: heap_flags_ok_def)

lemma flags_ok_install:
  assumes "flags_ok ib" and "data nb \<noteq> None"
  shows "flags_ok (ib\<lparr>encoded_size := k, encoded_buffer := nb, encoded_buffer_size := n,
      flags := flags ib OR IB_mem\<rparr>)"
proof (rule flags_ok_set [OF assms, where sl = EncodedBuffer])
  show "flags (ib\<lparr>encoded_size := k, encoded_buffer := nb, encoded_buffer_size := n,
      flags := flags ib OR IB_mem\<rparr>) = flags ib OR slot_flag EncodedBuffer"
    by simp
  fix sl'
  show "slot_of sl' (ib\<lparr>encoded_size := k, encoded_buffer := nb, encoded_buffer_size := n,
      flags := flags ib OR IB_mem\<rparr>) = (if sl' = EncodedBuffer then nb else slot_of sl' ib)"
    by (cases sl') simp_all
qed

lemma enlarge_true_ibufs:
  assumes run: "imb_enlargeencodedbufferImBuf (Some a) h = Inr (True, h')"
    and live: "ibufs h a = Some ib"
  shows "\<exists>k nb n. data nb \<noteq> None
     \<and> ibufs h' = (ibufs h)(a \<mapsto> ib\<lparr>encoded_size := k, encoded_buffer := nb,
           encoded_buffer_size := n, flags := flags ib OR IB_mem\<rparr>)"
proof -
  from enlarge_true_live [OF run] live
  have par: "\<not> encoded_buffer_size ib < encoded_size ib" and grant: "alloc_ok h (requests h)"
    by auto
  let ?n = "enlarged_size (encoded_buffer_size ib)"
  let ?nb = "\<lparr>data = Some (requests h), ownership = IB_TAKE_OWNERSHIP, implicit_sharing = None\<rparr>"
  show ?thesis
  proof (cases "data (encoded_buffer ib)")
    case None
    from run [symmetric] have "h' = store a (ib\<lparr>encoded_size := 0, encoded_buffer := ?nb,
        encoded_buffer_size := ?n, flags := flags ib OR IB_mem\<rparr>)
           (snd (imb_free_buffer (encoded_buffer ib)
              (h\<lparr>blocks := (blocks h)(requests h \<mapsto> replicate (unat ?n) 0),
                 requests := Suc (requests h)\<rparr>)))"
      by (simp add: enlarge_empty_run [OF live None par grant])
    then have "ibufs h' = (ibufs h)(a \<mapsto> ib\<lparr>encoded_size := 0, encoded_buffer := ?nb,
        encoded_buffer_size := ?n, flags := flags ib OR IB_mem\<rparr>)"
      by simp
    moreover have "data ?nb \<noteq> None" by simp
    ultimately show ?thesis by blast
  next
    case (Some d)
    let ?h1 = "h\<lparr>blocks := (blocks h)(requests h \<mapsto> replicate (unat ?n) 0),
              requests := Suc (requests h)\<rparr>"
    have alloc: "imb_alloc_buffer
        \<lparr>data = None, ownership = IB_DO_NOT_TAKE_OWNERSHIP, implicit_sharing = None\<rparr>
        ?n 1 1 1 h = Inr (True, ?nb, ?h1)"
      using grant by (rule enlarge_alloc)
    have step: "imb_enlargeencodedbufferImBuf (Some a) h
        = and_then (memcpy (Some (requests h)) (Some d) (unat (encoded_size ib)) ?h1) (\<lambda>h2.
            and_then (free_slot EncodedBuffer a h2) (\<lambda>h3.
              and_then (modify a (\<lambda>ib3.
                  ib3\<lparr>encoded_buffer := ?nb, encoded_buffer_size := ?n,
                      flags := flags ib3 OR IB_mem\<rparr>) h3) (\<lambda>h4. Inr (True, h4))))"
      using live par Some
      by (simp add: imb_enlargeencodedbufferImBuf_def load_live Let_def enlarge_alloc [OF grant]
          enlarged_size_def)
    from run [unfolded step] obtain h2 where
      copy: "memcpy (Some (requests h)) (Some d) (unat (encoded_size ib)) ?h1 = Inr h2"
      and rest: "and_then (free_slot EncodedBuffer a h2) (\<lambda>h3.
              and_then (modify a (\<lambda>ib3.
                  ib3\<lparr>encoded_buffer := ?nb, encoded_buffer_size := ?n,
                      flags := flags ib3 OR IB_mem\<rparr>) h3) (\<lambda>h4. Inr (True, h4)))
            = Inr (True, h')"
      by (auto simp: and_then_eq_Inr)
    from memcpy_ibufs [OF copy] live have live2: "ibufs h2 a = Some ib" and same2: "ibufs h2 = ibufs h"
      by simp_all
    from rest [symmetric] have "h' = store a
        (ib\<lparr>encoded_buffer := ?nb, encoded_buffer_size := ?n, flags := flags ib OR IB_mem\<rparr>)
        (snd (imb_free_buffer (encoded_buffer ib) h2))"
      by (simp add: free_slot_run [OF live2] modify_run)
    then have "ibufs h' = (ibufs h)(a \<mapsto> ib\<lparr>encoded_size := encoded_size ib,
        encoded_buffer := ?nb, encoded_buffer_size := ?n, flags := flags ib OR IB_mem\<rparr>)"
      by (simp add: same2)
    moreover have "data ?nb \<noteq> None" by simp
    ultimately show ?thesis by blast
  qed
qed

lemma imb_enlargeencodedbufferImBuf_keeps_flags:
  assumes ok: "heap_flags_ok h" and run: "imb_enlargeencodedbufferImBuf p h = Inr (r, h')"
  shows "heap_flags_ok h'"
proof (cases r)
  case False
  with run have "imb_enlargeencodedbufferImBuf p h = Inr (False, h')"
    by simp
  from enlarge_refused [OF this] have "ibufs h' = ibufs h"
    by (rule conjunct1)
  then show ?thesis
    using ok by (rule heap_flags_ok_same)
next
  case True
  with run have runT: "imb_enlargeencodedbufferImBuf p h = Inr (True, h')"
    by simp
  from enlarge_true_live [OF runT]
  obtain a ib where p: "p = Some a" and live: "ibufs h a = Some ib"
    by blast
  from enlarge_true_ibufs [OF runT [unfolded p] live]
  obtain k nb n where nb: "data nb \<noteq> None"
    and h': "ibufs h' = (ibufs h)(a \<mapsto> ib\<lparr>encoded_size := k, encoded_buffer := nb,
           encoded_buffer_size := n, flags := flags ib OR IB_mem\<rparr>)"
    by blast
  from ok live have "flags_ok ib"
    by (rule heap_flags_okD)
  then have "flags_ok (ib\<lparr>encoded_size := k, encoded_buffer := nb,
           encoded_buffer_size := n, flags := flags ib OR IB_mem\<rparr>)"
    using nb by (rule flags_ok_install)
  with ok h' show ?thesis
    by (rule heap_flags_ok_update)
qed

lemma freerect_empties:
  assumes fc: "release_fn fc"
    and run: "and_then (free_slot sl a h) (\<lambda>h1.
            and_then (imb_freemipmapImBuf fc (Some a) h1) (\<lambda>h2.
              clear_flag (slot_flag sl) a h2)) = Inr h'"
  shows "\<exists>ib'. ibufs h' a = Some ib' \<and> data (slot_of sl ib') = None"
proof -
  from run obtain ib where live: "ibufs h a = Some ib"
    by (auto simp: and_then_eq_Inr dest: free_slot_effect)
  from freerect_effect [OF fc run live]
  obtain ib' where live': "ibufs h' a = Some ib'"
    and eq: "ib' = (slot_update sl zero_buffer ib)
                   \<lparr>flags := flags ib AND NOT (slot_flag sl),
                    mipmap := mipmap ib', miptot := 0, refcounter := refcounter ib'\<rparr>"
    by blast
  have "data (slot_of sl ((slot_update sl zero_buffer ib)
                   \<lparr>flags := flags ib AND NOT (slot_flag sl),
                    mipmap := mipmap ib', miptot := 0, refcounter := refcounter ib'\<rparr>)) = None"
    by (simp add: zero_buffer_def)
  with eq have "data (slot_of sl ib') = None"
    by simp
  with live' show ?thesis
    by blast
qed

lemma imb_addrectfloatImBuf_keeps_flags:
  assumes ok: "heap_flags_ok h" and run: "imb_addrectfloatImBuf fuel p chans h = Inr (r, h')"
  shows "heap_flags_ok h'"
proof (cases p)
  case None
  with assms show ?thesis by (simp add: imb_addrectfloatImBuf_def)
next
  case (Some a)
  let ?f = "\<lambda>ib2. ib2\<lparr>channels := chans, flags := flags ib2 OR IB_rectfloat\<rparr>"
  from run obtain ib where live: "ibufs h a = Some ib"
    unfolding Some by (cases "ibufs h a") (simp_all add: imb_addrectfloatImBuf_def load_dead)
  from run [unfolded Some] obtain h1 where
    free: "(if data (float_buffer ib) \<noteq> None
            then imb_freerectfloatImBuf (IMB_freeImBuf fuel) (Some a) h else Inr h) = Inr h1"
    and rest: "and_then (load a h1) (\<lambda>ib1.
        and_then (alloc_slot FloatBuffer a (dim_x ib1) (dim_y ib1) chans 4 h1) (\<lambda>(ok, h2).
          if \<not> ok then Inr (False, h2)
          else and_then (modify a ?f h2) (\<lambda>h3. Inr (True, h3)))) = Inr (r, h')"
    by (simp add: imb_addrectfloatImBuf_def load_live [OF live] and_then_eq_Inr) blast
  from rest obtain ib1 where live1: "ibufs h1 a = Some ib1"
    and rest1: "and_then (alloc_slot FloatBuffer a (dim_x ib1) (dim_y ib1) chans 4 h1)
        (\<lambda>(ok, h2). if \<not> ok then Inr (False, h2)
          else and_then (modify a ?f h2) (\<lambda>h3. Inr (True, h3))) = Inr (r, h')"
    by (simp add: and_then_eq_Inr) blast
  from rest1 obtain granted h2 where
    alloc: "alloc_slot FloatBuffer a (dim_x ib1) (dim_y ib1) chans 4 h1 = Inr (granted, h2)"
    and fin: "(if \<not> granted then Inr (False, h2)
          else and_then (modify a ?f h2) (\<lambda>h3. Inr (True, h3))) = Inr (r, h')"
    by (simp add: and_then_eq_Inr) blast
  have "heap_flags_ok h1 \<and> data (slot_of FloatBuffer ib1) = None"
  proof (cases "data (float_buffer ib) \<noteq> None")
    case True
    with free have f: "imb_freerectfloatImBuf (IMB_freeImBuf fuel) (Some a) h = Inr h1"
      by simp
    with ok have "heap_flags_ok h1"
      by (rule imb_freerectfloatImBuf_keeps_flags)
    moreover from f have "and_then (free_slot FloatBuffer a h) (\<lambda>h1.
            and_then (imb_freemipmapImBuf (IMB_freeImBuf fuel) (Some a) h1) (\<lambda>h2.
              clear_flag (slot_flag FloatBuffer) a h2)) = Inr h1"
      by (simp add: imb_freerectfloatImBuf_def)
    from freerect_empties [OF release_fn_IMB_freeImBuf this] live1
    have "data (slot_of FloatBuffer ib1) = None"
      by auto
    ultimately show ?thesis by simp
  next
    case False
    with free live live1 ok show ?thesis by auto
  qed
  then have ok1: "heap_flags_ok h1" and empty: "data (slot_of FloatBuffer ib1) = None"
    by simp_all
  note a = alloc_set_keeps_flags [OF ok1 live1 empty alloc]
  show ?thesis
  proof (cases granted)
    case True
    with fin have "modify a ?f h2 = Inr h'"
      by (auto simp: and_then_eq_Inr)
    with True show ?thesis
      by (rule a(2) [where f = ?f]) simp_all
  next
    case False
    with fin have "h' = h2" by simp
    with False a(1) show ?thesis by simp
  qed
qed

lemma free_slot_dead: "ibufs h a = None \<Longrightarrow> free_slot sl a h = Inl DanglingPointer"
  by (simp add: free_slot_def load_dead)

lemma imb_addrectImBuf_keeps_flags:
  assumes ok: "heap_flags_ok h" and run: "imb_addrectImBuf p h = Inr (r, h')"
    and side: "\<forall>a ib ib'. p = Some a \<and> ibufs h a = Some ib \<and> ibufs h' a = Some ib'
        \<longrightarrow> data (byte_buffer ib) = None \<or> data (byte_buffer ib') \<noteq> None"
  shows "heap_flags_ok h'"
proof (cases p)
  case None
  with ok run show ?thesis by (simp add: imb_addrectImBuf_def)
next
  case (Some a)
  from run obtain ib where live: "ibufs h a = Some ib"
    unfolding Some by (cases "ibufs h a") (simp_all add: imb_addrectImBuf_def free_slot_dead)
  from ok live have fo: "flags_ok ib"
    by (rule heap_flags_okD)
  let ?ib1 = "slot_update ByteBuffer zero_buffer ib"
  let ?h1 = "store a ?ib1 (snd (imb_free_buffer (slot_of ByteBuffer ib) h))"
  have i1: "ibufs ?h1 = (ibufs h)(a \<mapsto> ?ib1)" by simp
  from run [unfolded Some] obtain granted h2 where
    alloc: "alloc_slot ByteBuffer a (dim_x ?ib1) (dim_y ?ib1) 4 1 ?h1 = Inr (granted, h2)"
    and fin: "(if \<not> granted then Inr (False, h2)
        else and_then (set_flag IB_rect a h2) (\<lambda>h3.
               and_then (load a h3) (\<lambda>ib3.
                 if unat (planes ib3) > 32 then addzbufImBuf (Some a) h3
                 else Inr (True, h3)))) = Inr (r, h')"
    by (simp add: imb_addrectImBuf_def free_slot_run [OF live] and_then_eq_Inr) blast
  from alloc_slot_step [OF alloc]
  obtain b where i2: "ibufs h2 = (ibufs h)(a \<mapsto> slot_update ByteBuffer b ?ib1)"
    and b: "(data b \<noteq> None) = granted"
    by (auto simp: i1)
  show ?thesis
  proof (cases granted)
    case False
    with fin have h': "h' = h2" by simp
    from False b have nb: "data b = None" by simp
    from side live i2 have "data (byte_buffer ib) = None \<or> data b \<noteq> None"
      unfolding h' Some by simp
    with nb have empty: "data (byte_buffer ib) = None" by simp
    have "(data (slot_of sl (slot_update ByteBuffer b ?ib1)) = None)
        = (data (slot_of sl ib) = None)" for sl
      using empty nb by (cases sl) simp_all
    then have "flags_ok (slot_update ByteBuffer b ?ib1)"
      by (intro flags_ok_same [OF fo]) simp_all
    with ok i2 show ?thesis
      unfolding h' by (rule heap_flags_ok_update)
  next
    case True
    with b have nb: "data b \<noteq> None" by simp
    let ?ib3 = "(slot_update ByteBuffer b ?ib1)\<lparr>flags := flags ib OR IB_rect\<rparr>"
    let ?h3 = "store a ?ib3 h2"
    have live2: "ibufs h2 a = Some (slot_update ByteBuffer b ?ib1)"
      by (simp add: i2)
    have s3: "set_flag IB_rect a h2 = Inr ?h3"
      by (simp add: set_flag_def modify_run [OF live2])
    have sl3: "slot_of sl' ?ib3 = (if sl' = ByteBuffer then b else slot_of sl' ib)" for sl'
      by (cases sl') simp_all
    have "flags_ok ?ib3"
      by (rule flags_ok_set [OF fo nb, where sl = ByteBuffer]) (simp, rule sl3)
    moreover have "ibufs ?h3 = (ibufs h)(a \<mapsto> ?ib3)"
      by (simp add: i2)
    ultimately have ok3: "heap_flags_ok ?h3"
      using heap_flags_ok_update [OF ok] by blast
    from fin True have tail: "(if unat (planes ?ib3) > 32 then addzbufImBuf (Some a) ?h3
        else Inr (True, ?h3)) = Inr (r, h')"
      by (simp add: s3 load_live split: if_splits)
    show ?thesis
    proof (cases "unat (planes ?ib3) > 32")
      case True
      with tail have "addzbufImBuf (Some a) ?h3 = Inr (r, h')" by simp
      with ok3 show ?thesis by (rule addzbufImBuf_keeps_flags)
    next
      case False
      with tail have "h' = ?h3" by simp
      with ok3 show ?thesis by simp
    qed
  qed
qed

lemma stolen_empty:
  "data b0 = None \<or> ownership b0 = IB_TAKE_OWNERSHIP \<Longrightarrow>
     data (snd (imb_steal_buffer_data b0)) = None"
  by (auto simp: imb_steal_buffer_data_def split: option.splits ImBufOwnership.splits)

lemma steal_slot_run:
  "ibufs h a = Some ib \<Longrightarrow>
     steal_slot sl a h
       = Inr (fst (imb_steal_buffer_data (slot_of sl ib)),
              store a (slot_update sl (snd (imb_steal_buffer_data (slot_of sl ib))) ib) h)"
  by (simp add: steal_slot_def load_live case_prod_beta)

lemma steal_slot_dead: "ibufs h a = None \<Longrightarrow> steal_slot sl a h = Inl DanglingPointer"
  by (simp add: steal_slot_def load_dead)

text \<open>
  Stealing from a slot of the struct at \<open>a\<close> and then clearing the flag of the slot, with
  whatever else the function writes to fields that are neither flags nor slots.
\<close>

lemma steal_keeps_flags:
  assumes ok: "heap_flags_ok h"
    and run: "and_then (steal_slot sl a h) (\<lambda>(d, h1).
        and_then (modify a g h1) (\<lambda>h2. Inr (d, h2))) = Inr (d', h')"
    and g1: "\<And>ib. flags (g ib) = flags ib AND NOT (slot_flag sl)"
    and g2: "\<And>ib sl'. slot_of sl' (g ib) = slot_of sl' ib"
    and side: "\<forall>ib. ibufs h a = Some ib \<longrightarrow>
        data (slot_of sl ib) = None \<or> ownership (slot_of sl ib) = IB_TAKE_OWNERSHIP"
  shows "heap_flags_ok h'"
proof -
  from run obtain ib where live: "ibufs h a = Some ib"
    by (cases "ibufs h a") (simp_all add: steal_slot_dead)
  let ?b = "snd (imb_steal_buffer_data (slot_of sl ib))"
  let ?ib1 = "slot_update sl ?b ib"
  from side live have nb: "data ?b = None"
    by (intro stolen_empty) simp
  from run [symmetric] have h': "h' = store a (g ?ib1) (store a ?ib1 h)"
    by (simp add: steal_slot_run [OF live] modify_run)
  from ok live have fo: "flags_ok ib"
    by (rule heap_flags_okD)
  have "flags_ok (g ?ib1)"
    by (rule flags_ok_cleared [OF fo nb, where sl = sl]) (simp_all add: g1 g2)
  moreover have "ibufs h' = (ibufs h)(a \<mapsto> g ?ib1)"
    by (simp add: h')
  ultimately show ?thesis
    using heap_flags_ok_update [OF ok] by blast
qed

lemma IMB_steal_byte_buffer_keeps_flags:
  assumes ok: "heap_flags_ok h" and run: "IMB_steal_byte_buffer p h = Inr (d, h')"
    and side: "\<forall>a ib. p = Some a \<and> ibufs h a = Some ib \<longrightarrow>
        data (byte_buffer ib) = None \<or> ownership (byte_buffer ib) = IB_TAKE_OWNERSHIP"
  shows "heap_flags_ok h'"
proof -
  from run obtain a where p: "p = Some a"
    by (cases p) (simp_all add: IMB_steal_byte_buffer_def nonnull_def)
  from run have "and_then (steal_slot ByteBuffer a h) (\<lambda>(d, h1).
        and_then (modify a (\<lambda>ib. ib\<lparr>flags := flags ib AND NOT IB_rect\<rparr>) h1)
          (\<lambda>h2. Inr (d, h2))) = Inr (d, h')"
    by (simp add: IMB_steal_byte_buffer_def p nonnull_def clear_flag_def)
  with ok show ?thesis
    by (rule steal_keeps_flags) (use side p in simp_all)
qed

lemma IMB_steal_float_buffer_keeps_flags:
  assumes ok: "heap_flags_ok h" and run: "IMB_steal_float_buffer p h = Inr (d, h')"
    and side: "\<forall>a ib. p = Some a \<and> ibufs h a = Some ib \<longrightarrow>
        data (float_buffer ib) = None \<or> ownership (float_buffer ib) = IB_TAKE_OWNERSHIP"
  shows "heap_flags_ok h'"
proof -
  from run obtain a where p: "p = Some a"
    by (cases p) (simp_all add: IMB_steal_float_buffer_def nonnull_def)
  from run have "and_then (steal_slot FloatBuffer a h) (\<lambda>(d, h1).
        and_then (modify a (\<lambda>ib. ib\<lparr>flags := flags ib AND NOT IB_rectfloat\<rparr>) h1)
          (\<lambda>h2. Inr (d, h2))) = Inr (d, h')"
    by (simp add: IMB_steal_float_buffer_def p nonnull_def clear_flag_def)
  with ok show ?thesis
    by (rule steal_keeps_flags) (use side p in simp_all)
qed

lemma IMB_steal_encoded_buffer_keeps_flags:
  assumes ok: "heap_flags_ok h" and run: "IMB_steal_encoded_buffer p h = Inr (d, h')"
    and side: "\<forall>a ib. p = Some a \<and> ibufs h a = Some ib \<longrightarrow>
        data (encoded_buffer ib) = None \<or> ownership (encoded_buffer ib) = IB_TAKE_OWNERSHIP"
  shows "heap_flags_ok h'"
proof -
  from run obtain a where p: "p = Some a"
    by (cases p) (simp_all add: IMB_steal_encoded_buffer_def nonnull_def)
  from run have "and_then (steal_slot EncodedBuffer a h) (\<lambda>(d, h1).
        and_then (modify a (\<lambda>ib. ib\<lparr>encoded_size := 0, encoded_buffer_size := 0,
                                      flags := flags ib AND NOT IB_mem\<rparr>) h1)
          (\<lambda>h2. Inr (d, h2))) = Inr (d, h')"
    by (simp add: IMB_steal_encoded_buffer_def p nonnull_def)
  with ok show ?thesis
    by (rule steal_keeps_flags) (use side p in simp_all)
qed

lemma remove_user_ibufs [simp]: "ibufs (remove_user_and_delete_if_last s h) = ibufs h"
  by (simp add: remove_user_and_delete_if_last_def split: option.splits prod.splits)

lemma add_user_ibufs [simp]: "ibufs (add_user s h) = ibufs h"
  by (simp add: add_user_def split: option.splits prod.splits)

lemma imb_free_buffer_ibufs [simp]: "ibufs (snd (imb_free_buffer b h)) = ibufs h"
  by (simp add: imb_free_buffer_def MEM_freeN_def
      split: option.splits ImBufOwnership.splits)

lemma imb_make_writeable_buffer_shape:
  "imb_make_writeable_buffer b h = Inr (b', h') \<Longrightarrow>
     ibufs h' = ibufs h \<and> (data b' = None) = (data b = None)"
  by (auto simp: imb_make_writeable_buffer_def MEM_dupallocN_def and_then_eq_Inr Let_def
      split: option.splits ImBufOwnership.splits if_splits)

lemma make_writeable_slot_keeps_flags:
  assumes ok: "heap_flags_ok h" and run: "make_writeable_slot sl p h = Inr h'"
  shows "heap_flags_ok h'"
proof -
  from run obtain a where p: "p = Some a"
    by (cases p) (simp_all add: make_writeable_slot_def nonnull_def)
  from run obtain ib where live: "ibufs h a = Some ib"
    unfolding p by (cases "ibufs h a") (simp_all add: make_writeable_slot_def nonnull_def load_dead)
  from run obtain b h1 where
    w: "imb_make_writeable_buffer (slot_of sl ib) h = Inr (b, h1)"
    and h': "h' = store a (slot_update sl b ib) h1"
    by (auto simp: make_writeable_slot_def p nonnull_def load_live [OF live] and_then_eq_Inr)
  from imb_make_writeable_buffer_shape [OF w]
  have i1: "ibufs h1 = ibufs h" and d: "(data b = None) = (data (slot_of sl ib) = None)"
    by simp_all
  from ok live have fo: "flags_ok ib"
    by (rule heap_flags_okD)
  have "(data (slot_of sl' (slot_update sl b ib)) = None) = (data (slot_of sl' ib) = None)"
    for sl'
    using d by simp
  then have "flags_ok (slot_update sl b ib)"
    by (intro flags_ok_same [OF fo]) simp_all
  moreover have "ibufs h' = (ibufs h)(a \<mapsto> slot_update sl b ib)"
    by (simp add: h' i1)
  ultimately show ?thesis
    using heap_flags_ok_update [OF ok] by blast
qed

text \<open>
  The common part of the assign functions: the slot is freed and its flag cleared, and then
  either nothing more happens or the slot gets \<open>b\<close> and the flag is set.
\<close>

lemma freed_then_filled:
  assumes ok: "heap_flags_ok h" and live: "ibufs h a = Some ib"
    and i': "ibufs h' = (ibufs h)(a \<mapsto>
        (slot_update sl b ((slot_update sl zero_buffer ib)
           \<lparr>flags := flags ib AND NOT (slot_flag sl)\<rparr>))
        \<lparr>flags := (flags ib AND NOT (slot_flag sl)) OR slot_flag sl\<rparr>)"
    and nb: "data b \<noteq> None"
  shows "heap_flags_ok h'"
proof -
  let ?ib2 = "(slot_update sl zero_buffer ib)\<lparr>flags := flags ib AND NOT (slot_flag sl)\<rparr>"
  from ok live have "flags_ok ib"
    by (rule heap_flags_okD)
  then have fo2: "flags_ok ?ib2"
    by (rule flags_ok_free_clear)
  have "flags_ok ((slot_update sl b ?ib2)\<lparr>flags := flags ?ib2 OR slot_flag sl\<rparr>)"
    by (rule flags_ok_set [OF fo2 nb, where sl = sl]) simp_all
  then have "flags_ok ((slot_update sl b ?ib2)
      \<lparr>flags := (flags ib AND NOT (slot_flag sl)) OR slot_flag sl\<rparr>)"
    by simp
  with i' show ?thesis
    using heap_flags_ok_update [OF ok] by blast
qed

lemma free_clear_run:
  assumes live: "ibufs h a = Some ib"
  shows "and_then (free_slot sl a h) (\<lambda>h1. and_then (clear_flag (slot_flag sl) a h1) k)
     = k (store a ((slot_update sl zero_buffer ib)\<lparr>flags := flags ib AND NOT (slot_flag sl)\<rparr>)
            (store a (slot_update sl zero_buffer ib)
               (snd (imb_free_buffer (slot_of sl ib) h))))"
  by (simp add: free_slot_run [OF live] clear_flag_def modify_run)

lemma assign_slot_keeps_flags:
  assumes ok: "heap_flags_ok h" and run: "assign_slot sl p d own h = Inr h'"
  shows "heap_flags_ok h'"
proof -
  from run obtain a where p: "p = Some a"
    by (cases p) (simp_all add: assign_slot_def nonnull_def)
  from run obtain ib where live: "ibufs h a = Some ib"
    unfolding p by (cases "ibufs h a") (simp_all add: assign_slot_def nonnull_def free_slot_dead)
  let ?ib2 = "(slot_update sl zero_buffer ib)\<lparr>flags := flags ib AND NOT (slot_flag sl)\<rparr>"
  let ?h2 = "store a ?ib2 (store a (slot_update sl zero_buffer ib)
               (snd (imb_free_buffer (slot_of sl ib) h)))"
  have i2: "ibufs ?h2 = (ibufs h)(a \<mapsto> ?ib2)" by simp
  from ok live have "flags_ok ib"
    by (rule heap_flags_okD)
  then have fo2: "flags_ok ?ib2"
    by (rule flags_ok_free_clear)
  with i2 have ok2: "heap_flags_ok ?h2"
    using heap_flags_ok_update [OF ok] by blast
  show ?thesis
  proof (cases d)
    case None
    with run [symmetric] have "h' = ?h2"
      by (simp add: assign_slot_def p nonnull_def free_clear_run [OF live])
    with ok2 show ?thesis by simp
  next
    case (Some blk)
    let ?b = "zero_buffer\<lparr>data := Some blk, ownership := own\<rparr>"
    have live2: "ibufs ?h2 a = Some ?ib2" by simp
    from run [symmetric] have "h' = store a ((slot_update sl ?b ?ib2)
        \<lparr>flags := (flags ib AND NOT (slot_flag sl)) OR slot_flag sl\<rparr>)
          (store a (slot_update sl ?b ?ib2) ?h2)"
      by (simp add: assign_slot_def p nonnull_def free_clear_run [OF live] Some
          modify_run set_flag_def)
    then have "ibufs h' = (ibufs h)(a \<mapsto> (slot_update sl ?b ?ib2)
        \<lparr>flags := (flags ib AND NOT (slot_flag sl)) OR slot_flag sl\<rparr>)"
      by simp
    with ok live show ?thesis
      by (rule freed_then_filled) simp
  qed
qed

lemma imb_assign_shared_buffer_ibufs [simp]:
  "ibufs (snd (imb_assign_shared_buffer b d s h)) = ibufs h"
proof -
  have "ibufs (snd (imb_free_buffer b h)) = ibufs h" by simp
  then show ?thesis
    by (cases "imb_free_buffer b h"; cases s) (simp_all add: imb_assign_shared_buffer_def)
qed

lemma imb_assign_shared_buffer_data:
  "data (fst (imb_assign_shared_buffer b d s h)) = (if s = None then None else d)"
  by (cases "imb_free_buffer b h"; cases s) (simp_all add: imb_assign_shared_buffer_def)

lemma assign_shared_slot_keeps_flags:
  assumes ok: "heap_flags_ok h" and run: "assign_shared_slot sl p d s h = Inr h'"
    and side: "d \<noteq> None \<longrightarrow> s \<noteq> None"
  shows "heap_flags_ok h'"
proof -
  from run obtain a where p: "p = Some a"
    by (cases p) (simp_all add: assign_shared_slot_def nonnull_def)
  from run obtain ib where live: "ibufs h a = Some ib"
    unfolding p
    by (cases "ibufs h a") (simp_all add: assign_shared_slot_def nonnull_def free_slot_dead)
  let ?ib2 = "(slot_update sl zero_buffer ib)\<lparr>flags := flags ib AND NOT (slot_flag sl)\<rparr>"
  let ?h2 = "store a ?ib2 (store a (slot_update sl zero_buffer ib)
               (snd (imb_free_buffer (slot_of sl ib) h)))"
  have i2: "ibufs ?h2 = (ibufs h)(a \<mapsto> ?ib2)" by simp
  from ok live have "flags_ok ib"
    by (rule heap_flags_okD)
  then have fo2: "flags_ok ?ib2"
    by (rule flags_ok_free_clear)
  with i2 have ok2: "heap_flags_ok ?h2"
    using heap_flags_ok_update [OF ok] by blast
  show ?thesis
  proof (cases d)
    case None
    with run [symmetric] have "h' = ?h2"
      by (simp add: assign_shared_slot_def p nonnull_def free_clear_run [OF live])
    with ok2 show ?thesis by simp
  next
    case (Some blk)
    with side obtain sh where s: "s = Some sh" by auto
    let ?r = "imb_assign_shared_buffer (slot_of sl ?ib2) d s ?h2"
    let ?b = "fst ?r"
    have nb: "data ?b \<noteq> None"
      by (simp add: imb_assign_shared_buffer_data s Some)
    have i3: "ibufs (snd ?r) = (ibufs h)(a \<mapsto> ?ib2)"
      by simp
    have live2: "ibufs ?h2 a = Some ?ib2" by simp
    from run [symmetric] have "h' = store a ((slot_update sl ?b ?ib2)
        \<lparr>flags := (flags ib AND NOT (slot_flag sl)) OR slot_flag sl\<rparr>)
          (store a (slot_update sl ?b ?ib2) (snd ?r))"
      by (simp add: assign_shared_slot_def p nonnull_def free_clear_run [OF live] Some
          load_live modify_run set_flag_def case_prod_beta)
    then have "ibufs h' = (ibufs h)(a \<mapsto> (slot_update sl ?b ?ib2)
        \<lparr>flags := (flags ib AND NOT (slot_flag sl)) OR slot_flag sl\<rparr>)"
      by (simp add: i3)
    with ok live show ?thesis
      using nb by (rule freed_then_filled)
  qed
qed

lemma flags_ok_fresh [simp]:
  "flags_ok (zero_ImBuf\<lparr>dim_x := x, dim_y := y, planes := pl, channels := c\<rparr>)"
  by (simp add: flags_ok_def flag_matches_def zero_ImBuf_def zero_buffer_def)

lemma IMB_initImBuf_keeps_flags:
  assumes ok: "heap_flags_ok h"
    and run: "IMB_initImBuf fuel p x y pl fl h = Inr (r, h')"
  shows "heap_flags_ok h'"
proof -
  from run obtain a where p: "p = Some a"
    by (cases p) (simp_all add: IMB_initImBuf_def nonnull_def)
  from run obtain old where live: "ibufs h a = Some old"
    unfolding p by (cases "ibufs h a") (simp_all add: IMB_initImBuf_def nonnull_def load_dead)
  let ?z = "zero_ImBuf\<lparr>dim_x := x, dim_y := y, planes := pl, channels := 4\<rparr>"
  let ?h0 = "store a ?z h"
  have "ibufs ?h0 = (ibufs h)(a \<mapsto> ?z)" by simp
  then have ok0: "heap_flags_ok ?h0"
    using heap_flags_ok_update [OF ok] flags_ok_fresh by blast
  from run obtain ok1 h1 where
    1: "(if fl AND IB_rect \<noteq> 0 then imb_addrectImBuf (Some a) ?h0 else Inr (True, ?h0))
          = Inr (ok1, h1)"
    and r1: "(if \<not> ok1 then Inr (False, h1)
        else and_then
               (if fl AND IB_rectfloat \<noteq> 0
                then and_then (load a h1) (\<lambda>ib.
                       imb_addrectfloatImBuf fuel (Some a) (channels ib) h1)
                else Inr (True, h1)) (\<lambda>(ok2, h2).
               if \<not> ok2 then Inr (False, h2)
               else
                 and_then
                   (if fl AND IB_zbuf \<noteq> 0 then addzbufImBuf (Some a) h2
                    else Inr (True, h2)) (\<lambda>(ok3, h3).
                   if \<not> ok3 then Inr (False, h3)
                   else
                     and_then
                       (if fl AND IB_zbuffloat \<noteq> 0 then addzbuffloatImBuf (Some a) h3
                        else Inr (True, h3)) (\<lambda>(ok4, h4).
                       if \<not> ok4 then Inr (False, h4) else Inr (True, h4))))) = Inr (r, h')"
    by (simp add: IMB_initImBuf_def p nonnull_def load_live [OF live] and_then_eq_Inr) blast
  have ok1: "heap_flags_ok h1"
  proof (cases "fl AND IB_rect \<noteq> 0")
    case True
    with 1 have "imb_addrectImBuf (Some a) ?h0 = Inr (ok1, h1)" by simp
    with ok0 show ?thesis
      by (rule imb_addrectImBuf_keeps_flags) (simp add: zero_ImBuf_def zero_buffer_def)
  next
    case False
    with 1 ok0 show ?thesis by auto
  qed
  show ?thesis
  proof (cases ok1)
    case False
    with r1 ok1 show ?thesis by simp
  next
    case True
    with r1 obtain ok2 h2 where
      2: "(if fl AND IB_rectfloat \<noteq> 0
                then and_then (load a h1) (\<lambda>ib.
                       imb_addrectfloatImBuf fuel (Some a) (channels ib) h1)
                else Inr (True, h1)) = Inr (ok2, h2)"
      and r2: "(if \<not> ok2 then Inr (False, h2)
               else
                 and_then
                   (if fl AND IB_zbuf \<noteq> 0 then addzbufImBuf (Some a) h2
                    else Inr (True, h2)) (\<lambda>(ok3, h3).
                   if \<not> ok3 then Inr (False, h3)
                   else
                     and_then
                       (if fl AND IB_zbuffloat \<noteq> 0 then addzbuffloatImBuf (Some a) h3
                        else Inr (True, h3)) (\<lambda>(ok4, h4).
                       if \<not> ok4 then Inr (False, h4) else Inr (True, h4)))) = Inr (r, h')"
      by (simp add: and_then_eq_Inr) blast
    have ok2: "heap_flags_ok h2"
    proof (cases "fl AND IB_rectfloat \<noteq> 0")
      case True
      with 2 obtain c where "imb_addrectfloatImBuf fuel (Some a) c h1 = Inr (ok2, h2)"
        by (auto simp: and_then_eq_Inr)
      with ok1 show ?thesis
        by (rule imb_addrectfloatImBuf_keeps_flags)
    next
      case False
      with 2 ok1 show ?thesis by auto
    qed
    show ?thesis
    proof (cases ok2)
      case False
      with r2 ok2 show ?thesis by simp
    next
      case True
      with r2 obtain ok3 h3 where
        3: "(if fl AND IB_zbuf \<noteq> 0 then addzbufImBuf (Some a) h2
                    else Inr (True, h2)) = Inr (ok3, h3)"
        and r3: "(if \<not> ok3 then Inr (False, h3)
                   else
                     and_then
                       (if fl AND IB_zbuffloat \<noteq> 0 then addzbuffloatImBuf (Some a) h3
                        else Inr (True, h3)) (\<lambda>(ok4, h4).
                       if \<not> ok4 then Inr (False, h4) else Inr (True, h4))) = Inr (r, h')"
        by (simp add: and_then_eq_Inr) blast
      have ok3: "heap_flags_ok h3"
      proof (cases "fl AND IB_zbuf \<noteq> 0")
        case True
        with 3 have "addzbufImBuf (Some a) h2 = Inr (ok3, h3)" by simp
        with ok2 show ?thesis
          by (rule addzbufImBuf_keeps_flags)
      next
        case False
        with 3 ok2 show ?thesis by auto
      qed
      show ?thesis
      proof (cases ok3)
        case False
        with r3 ok3 show ?thesis by simp
      next
        case True
        with r3 obtain ok4 h4 where
          4: "(if fl AND IB_zbuffloat \<noteq> 0 then addzbuffloatImBuf (Some a) h3
                        else Inr (True, h3)) = Inr (ok4, h4)"
          and r4: "h' = h4"
          by (auto simp: and_then_eq_Inr split: if_splits)
        have "heap_flags_ok h4"
        proof (cases "fl AND IB_zbuffloat \<noteq> 0")
          case True
          with 4 have "addzbuffloatImBuf (Some a) h3 = Inr (ok4, h4)" by simp
          with ok3 show ?thesis
            by (rule addzbuffloatImBuf_keeps_flags)
        next
          case False
          with 4 ok3 show ?thesis by auto
        qed
        with r4 show ?thesis by simp
      qed
    qed
  qed
qed

lemma MEM_cnew_ImBuf_keeps_flags:
  assumes "heap_flags_ok h" and "MEM_cnew_ImBuf h = (q, h1)"
  shows "heap_flags_ok h1"
  using assms by (auto simp: MEM_cnew_ImBuf_def heap_flags_ok_def split: if_splits)

lemma IMB_allocImBuf_keeps_flags:
  assumes ok: "heap_flags_ok h"
    and run: "IMB_allocImBuf fuel x y pl fl h = Inr (q, h')"
  shows "heap_flags_ok h'"
proof -
  obtain q1 h1 where c: "MEM_cnew_ImBuf h = (q1, h1)"
    by (cases "MEM_cnew_ImBuf h")
  from ok c have ok1: "heap_flags_ok h1"
    by (rule MEM_cnew_ImBuf_keeps_flags)
  show ?thesis
  proof (cases q1)
    case None
    with run c ok1 show ?thesis
      by (simp add: IMB_allocImBuf_def)
  next
    case (Some a)
    with run c obtain r h2 where
      i: "IMB_initImBuf fuel (Some a) x y pl fl h1 = Inr (r, h2)"
      and fin: "(if \<not> r then and_then (IMB_freeImBuf fuel (Some a) h2) (\<lambda>h3. Inr (None, h3))
          else Inr (Some a, h2)) = Inr (q, h')"
      by (simp add: IMB_allocImBuf_def and_then_eq_Inr) blast
    from ok1 i have ok2: "heap_flags_ok h2"
      by (rule IMB_initImBuf_keeps_flags)
    show ?thesis
    proof (cases r)
      case True
      with fin ok2 show ?thesis by simp
    next
      case False
      with fin have "IMB_freeImBuf fuel (Some a) h2 = Inr h'"
        by (auto simp: and_then_eq_Inr)
      with ok2 show ?thesis
        by (rule IMB_freeImBuf_keeps_flags)
    qed
  qed
qed

lemma IMB_allocFromBufferOwn_keeps_flags:
  assumes ok: "heap_flags_ok h"
    and run: "IMB_allocFromBufferOwn fuel bd fd w ht chans h = Inr (q, h')"
  shows "heap_flags_ok h'"
proof (cases "bd = None \<and> fd = None")
  case True
  with run ok show ?thesis
    by (simp add: IMB_allocFromBufferOwn_def)
next
  case False
  with run obtain q1 h1 a h2 h3 where
    1: "IMB_allocImBuf fuel w ht 32 0 h = Inr (q1, h1)"
    and 2: "modify a (\<lambda>ib. ib\<lparr>channels := chans\<rparr>) h1 = Inr h2"
    and 3: "(if fd \<noteq> None then IMB_assign_float_buffer q1 fd IB_TAKE_OWNERSHIP h2
             else Inr h2) = Inr h3"
    and 4: "(if bd \<noteq> None then IMB_assign_byte_buffer q1 bd IB_TAKE_OWNERSHIP h3
             else Inr h3) = Inr h'"
    by (auto simp: IMB_allocFromBufferOwn_def and_then_eq_Inr)
  from ok 1 have ok1: "heap_flags_ok h1"
    by (rule IMB_allocImBuf_keeps_flags)
  from ok1 2 have ok2: "heap_flags_ok h2"
    by (rule modify_keeps_flags) simp
  have ok3: "heap_flags_ok h3"
  proof (cases "fd \<noteq> None")
    case True
    with 3 have "assign_slot FloatBuffer q1 fd IB_TAKE_OWNERSHIP h2 = Inr h3"
      by (simp add: IMB_assign_float_buffer_def)
    with ok2 show ?thesis
      by (rule assign_slot_keeps_flags)
  next
    case False
    with 3 ok2 show ?thesis by simp
  qed
  show ?thesis
  proof (cases "bd \<noteq> None")
    case True
    with 4 have "assign_slot ByteBuffer q1 bd IB_TAKE_OWNERSHIP h3 = Inr h'"
      by (simp add: IMB_assign_byte_buffer_def)
    with ok3 show ?thesis
      by (rule assign_slot_keeps_flags)
  next
    case False
    with 4 ok3 show ?thesis by simp
  qed
qed

lemma untouched_at: "ibufs h' = (ibufs h)(a \<mapsto> x) \<Longrightarrow> untouched {a} h h'"
  by (simp add: untouched_def)

lemma flag_clear_set: "(w AND NOT f) OR f = w OR (f :: 32 word)"
  by (rule bit_eqI) (auto simp: bit_simps)

text \<open>
  A successful allocation into a slot followed by the update that sets the flag of the slot:
  no other image buffer changes, and the flag is added to the flags.
\<close>

lemma set_after_alloc:
  assumes alloc: "alloc_slot sl a x y c t h1 = Inr (granted, h2)"
    and live1: "ibufs h1 a = Some ib1"
    and m: "modify a g h2 = Inr h3"
    and g: "\<And>ib. flags (g ib) = flags ib OR f"
  shows "untouched {a} h1 h3 \<and> (\<exists>ib3. ibufs h3 a = Some ib3 \<and> flags ib3 = flags ib1 OR f)"
proof -
  from alloc_slot_step [OF alloc] live1
  obtain b where i2: "ibufs h2 = (ibufs h1)(a \<mapsto> slot_update sl b ib1)"
    by auto
  from modify_effect [OF m] i2
  have h3: "h3 = store a (g (slot_update sl b ib1)) h2"
    by auto
  have i3: "ibufs h3 = (ibufs h1)(a \<mapsto> g (slot_update sl b ib1))"
    by (simp add: h3 i2)
  then have "untouched {a} h1 h3"
    by (rule untouched_at)
  moreover have "flags (g (slot_update sl b ib1)) = flags ib1 OR f"
    by (simp add: g)
  ultimately show ?thesis
    using i3 by simp
qed

lemma addzbuffloatImBuf_true:
  assumes run: "addzbuffloatImBuf (Some a) h = Inr (True, h')"
    and live: "ibufs h a = Some ib"
  shows "untouched {a} h h'
     \<and> (\<exists>ib'. ibufs h' a = Some ib' \<and> flags ib' = flags ib OR IB_zbuffloat)"
proof -
  from run obtain h1 and ib1 :: ImBuf and h2 where
    1: "and_then (free_slot FloatZBuffer a h) (\<lambda>h1. clear_flag (slot_flag FloatZBuffer) a h1)
          = Inr h1"
    and 2: "alloc_slot FloatZBuffer a (dim_x ib1) (dim_y ib1) 1 4 h1 = Inr (True, h2)"
    and 3: "set_flag IB_zbuffloat a h2 = Inr h'"
    unfolding addzbuffloatImBuf_def IMB_freezbuffloatImBuf_def
    by (auto simp: and_then_eq_Inr split: if_splits)
  note e = free_plain_effect [OF 1 live]
  from 3 have m: "modify a (\<lambda>ib. ib\<lparr>flags := flags ib OR IB_zbuffloat\<rparr>) h2 = Inr h'"
    by (simp add: set_flag_def)
  from set_after_alloc [OF 2 e(4) m, of IB_zbuffloat]
  obtain ib' where u: "untouched {a} h1 h'" and live': "ibufs h' a = Some ib'"
    and fl: "flags ib' = (flags ib AND NOT IB_zbuffloat) OR IB_zbuffloat"
    by auto
  from e(2) u have "untouched {a} h h'"
    by (rule untouched_trans)
  with live' fl show ?thesis
    by (simp add: flag_clear_set)
qed

lemma imb_addencodedbufferImBuf_true:
  assumes run: "imb_addencodedbufferImBuf (Some a) h = Inr (True, h')"
    and live: "ibufs h a = Some ib"
  shows "untouched {a} h h'
     \<and> (\<exists>ib'. ibufs h' a = Some ib' \<and> flags ib' = flags ib OR IB_mem)"
proof -
  let ?f = "\<lambda>ib. (if encoded_buffer_size ib = 0 then ib\<lparr>encoded_buffer_size := 10000\<rparr> else ib)
                  \<lparr>encoded_size := 0\<rparr>"
  from run obtain h1 h2 and ib2 :: ImBuf and h3 where
    1: "freeencodedbufferImBuf (Some a) h = Inr h1"
    and 2: "modify a ?f h1 = Inr h2"
    and live2: "ibufs h2 a = Some ib2"
    and 3: "alloc_slot EncodedBuffer a (encoded_buffer_size ib2) 1 1 1 h2 = Inr (True, h3)"
    and 4: "set_flag IB_mem a h3 = Inr h'"
    unfolding imb_addencodedbufferImBuf_def
    by (auto simp: and_then_eq_Inr split: if_splits)
  note e = freeencoded_effect [OF 1 live]
  from modify_effect [OF 2] e(4)
  have h2: "h2 = store a (?f (ib\<lparr>encoded_buffer := zero_buffer, encoded_buffer_size := 0,
                 encoded_size := 0, flags := flags ib AND NOT IB_mem\<rparr>)) h1"
    by auto
  then have u12: "untouched {a} h1 h2"
    by (simp add: untouched_store)
  from h2 live2 have f2: "flags ib2 = flags ib AND NOT IB_mem"
    by auto
  from 4 have m: "modify a (\<lambda>ib. ib\<lparr>flags := flags ib OR IB_mem\<rparr>) h3 = Inr h'"
    by (simp add: set_flag_def)
  from set_after_alloc [OF 3 live2 m, of IB_mem]
  obtain ib' where u: "untouched {a} h2 h'" and live': "ibufs h' a = Some ib'"
    and fl: "flags ib' = flags ib2 OR IB_mem"
    by auto
  from e(2) u12 have "untouched {a} h h2"
    by (rule untouched_trans)
  then have "untouched {a} h h'"
    using u by (rule untouched_trans)
  with live' fl f2 show ?thesis
    by (simp add: flag_clear_set)
qed

lemma imb_addrectImBuf_true:
  assumes run: "imb_addrectImBuf (Some a) h = Inr (True, h')"
    and live: "ibufs h a = Some ib"
  shows "untouched {a} h h'
     \<and> (\<exists>ib'. ibufs h' a = Some ib' \<and> flags ib' = flags ib OR IB_rect)"
proof -
  let ?ib1 = "slot_update ByteBuffer zero_buffer ib"
  let ?h1 = "store a ?ib1 (snd (imb_free_buffer (slot_of ByteBuffer ib) h))"
  have i1: "ibufs ?h1 = (ibufs h)(a \<mapsto> ?ib1)" by simp
  then have u1: "untouched {a} h ?h1"
    by (rule untouched_at)
  have live1: "ibufs ?h1 a = Some ?ib1" by simp
  from run obtain granted h2 where
    alloc: "alloc_slot ByteBuffer a (dim_x ?ib1) (dim_y ?ib1) 4 1 ?h1 = Inr (granted, h2)"
    and fin: "(if \<not> granted then Inr (False, h2)
        else and_then (set_flag IB_rect a h2) (\<lambda>h3.
               and_then (load a h3) (\<lambda>ib3.
                 if unat (planes ib3) > 32 then addzbufImBuf (Some a) h3
                 else Inr (True, h3)))) = Inr (True, h')"
    by (simp add: imb_addrectImBuf_def free_slot_run [OF live] and_then_eq_Inr) blast
  from fin have g: granted
    by (cases granted) simp_all
  with fin obtain h3 and ib3 :: ImBuf where s: "set_flag IB_rect a h2 = Inr h3"
    and t: "(if unat (planes ib3) > 32 then addzbufImBuf (Some a) h3 else Inr (True, h3))
        = Inr (True, h')"
    by (auto simp: and_then_eq_Inr)
  from t have h': "h' = h3"
    by (auto dest: addzbufImBuf_never_true split: if_splits)
  from s have m: "modify a (\<lambda>ib. ib\<lparr>flags := flags ib OR IB_rect\<rparr>) h2 = Inr h3"
    by (simp add: set_flag_def)
  from set_after_alloc [OF alloc live1 m, of IB_rect]
  obtain ib' where u: "untouched {a} ?h1 h3" and live': "ibufs h3 a = Some ib'"
    and fl: "flags ib' = flags ?ib1 OR IB_rect"
    by auto
  from u1 u have "untouched {a} h h3"
    by (rule untouched_trans)
  with live' fl show ?thesis
    unfolding h' by simp
qed

lemma imb_addrectfloatImBuf_true:
  assumes run: "imb_addrectfloatImBuf fuel (Some a) chans h = Inr (True, h')"
    and live: "ibufs h a = Some ib"
  shows "untouched {a} h h'
     \<and> (\<exists>ib'. ibufs h' a = Some ib' \<and> flags ib' = flags ib OR IB_rectfloat)"
proof -
  let ?f = "\<lambda>ib2. ib2\<lparr>channels := chans, flags := flags ib2 OR IB_rectfloat\<rparr>"
  from run obtain h1 where
    free: "(if data (float_buffer ib) \<noteq> None
            then imb_freerectfloatImBuf (IMB_freeImBuf fuel) (Some a) h else Inr h) = Inr h1"
    and rest: "and_then (load a h1) (\<lambda>ib1.
        and_then (alloc_slot FloatBuffer a (dim_x ib1) (dim_y ib1) chans 4 h1) (\<lambda>(ok, h2).
          if \<not> ok then Inr (False, h2)
          else and_then (modify a ?f h2) (\<lambda>h3. Inr (True, h3)))) = Inr (True, h')"
    by (simp add: imb_addrectfloatImBuf_def load_live [OF live] and_then_eq_Inr) blast
  from rest obtain ib1 where live1: "ibufs h1 a = Some ib1"
    and rest1: "and_then (alloc_slot FloatBuffer a (dim_x ib1) (dim_y ib1) chans 4 h1)
        (\<lambda>(ok, h2). if \<not> ok then Inr (False, h2)
          else and_then (modify a ?f h2) (\<lambda>h3. Inr (True, h3))) = Inr (True, h')"
    by (simp add: and_then_eq_Inr) blast
  from rest1 obtain granted h2 where
    alloc: "alloc_slot FloatBuffer a (dim_x ib1) (dim_y ib1) chans 4 h1 = Inr (granted, h2)"
    and fin: "(if \<not> granted then Inr (False, h2)
          else and_then (modify a ?f h2) (\<lambda>h3. Inr (True, h3))) = Inr (True, h')"
    by (simp add: and_then_eq_Inr) blast
  from fin have m: "modify a ?f h2 = Inr h'"
    by (cases granted) (auto simp: and_then_eq_Inr)
  have first: "untouched {a} h h1
      \<and> (flags ib1 = flags ib \<or> flags ib1 = flags ib AND NOT IB_rectfloat)"
  proof (cases "data (float_buffer ib) \<noteq> None")
    case True
    with free have "imb_freerectfloatImBuf (IMB_freeImBuf fuel) (Some a) h = Inr h1"
      by simp
    then have "and_then (free_slot FloatBuffer a h) (\<lambda>h1.
            and_then (imb_freemipmapImBuf (IMB_freeImBuf fuel) (Some a) h1) (\<lambda>h2.
              clear_flag (slot_flag FloatBuffer) a h2)) = Inr h1"
      by (simp add: imb_freerectfloatImBuf_def)
    from freerect_effect [OF release_fn_IMB_freeImBuf this live]
    obtain ib1' where u: "untouched {a} h h1" and l: "ibufs h1 a = Some ib1'"
      and eq: "ib1' = (slot_update FloatBuffer zero_buffer ib)
                   \<lparr>flags := flags ib AND NOT (slot_flag FloatBuffer),
                    mipmap := mipmap ib1', miptot := 0, refcounter := refcounter ib1'\<rparr>"
      by blast
    have "flags ((slot_update FloatBuffer zero_buffer ib)
                   \<lparr>flags := flags ib AND NOT (slot_flag FloatBuffer),
                    mipmap := mipmap ib1', miptot := 0, refcounter := refcounter ib1'\<rparr>)
        = flags ib AND NOT IB_rectfloat"
      by simp
    with eq have "flags ib1' = flags ib AND NOT IB_rectfloat"
      by simp
    with u l live1 show ?thesis
      by simp
  next
    case False
    with free live live1 show ?thesis
      by auto
  qed
  from set_after_alloc [OF alloc live1 m, of IB_rectfloat]
  obtain ib' where u: "untouched {a} h1 h'" and live': "ibufs h' a = Some ib'"
    and fl: "flags ib' = flags ib1 OR IB_rectfloat"
    by auto
  from first u have "untouched {a} h h'"
    by (blast intro: untouched_trans)
  moreover from first fl have "flags ib' = flags ib OR IB_rectfloat"
    by (auto simp: flag_clear_set)
  ultimately show ?thesis
    using live' by simp
qed

text \<open>
  A step of \<open>IMB_initImBuf\<close> that succeeded: the slot was not requested and nothing happened,
  or it was requested and its flag was added.
\<close>

lemma requested_step:
  assumes run: "(if c then op h else Inr (True, h)) = Inr (True, h')"
    and live: "ibufs h a = Some ib"
    and op: "\<And>ib. op h = Inr (True, h') \<Longrightarrow> ibufs h a = Some ib \<Longrightarrow>
        untouched {a} h h' \<and> (\<exists>ib'. ibufs h' a = Some ib' \<and> flags ib' = flags ib OR f)"
  shows "untouched {a} h h'
     \<and> (\<exists>ib'. ibufs h' a = Some ib' \<and> flags ib' = flags ib OR (if c then f else 0))"
proof (cases c)
  case True
  with run have "op h = Inr (True, h')" by simp
  from op [OF this live] True show ?thesis by simp
next
  case False
  with run live show ?thesis by simp
qed

lemma IMB_initImBuf_true:
  assumes run: "IMB_initImBuf fuel (Some a) x y pl fl h = Inr (True, h')"
  shows "untouched {a} h h' \<and> fl AND IB_zbuf = 0
     \<and> (\<exists>ib'. ibufs h' a = Some ib'
          \<and> flags ib' = ((if fl AND IB_rect \<noteq> 0 then IB_rect else 0)
                OR (if fl AND IB_rectfloat \<noteq> 0 then IB_rectfloat else 0))
                OR (if fl AND IB_zbuffloat \<noteq> 0 then IB_zbuffloat else 0))"
proof -
  from run obtain old where live: "ibufs h a = Some old"
    by (cases "ibufs h a") (simp_all add: IMB_initImBuf_def nonnull_def load_dead)
  let ?z = "zero_ImBuf\<lparr>dim_x := x, dim_y := y, planes := pl, channels := 4\<rparr>"
  let ?h0 = "store a ?z h"
  have live0: "ibufs ?h0 a = Some ?z" by simp
  have u0: "untouched {a} h ?h0"
    by (simp add: untouched_store)
  have z: "fl AND IB_zbuf = 0"
    using IMB_initImBuf_zbuf_false [OF run] by auto
  from run obtain ok1 h1 where
    1: "(if fl AND IB_rect \<noteq> 0 then imb_addrectImBuf (Some a) ?h0 else Inr (True, ?h0))
          = Inr (ok1, h1)"
    and r1: "(if \<not> ok1 then Inr (False, h1)
        else and_then
               (if fl AND IB_rectfloat \<noteq> 0
                then and_then (load a h1) (\<lambda>ib.
                       imb_addrectfloatImBuf fuel (Some a) (channels ib) h1)
                else Inr (True, h1)) (\<lambda>(ok2, h2).
               if \<not> ok2 then Inr (False, h2)
               else
                 and_then
                   (if fl AND IB_zbuf \<noteq> 0 then addzbufImBuf (Some a) h2
                    else Inr (True, h2)) (\<lambda>(ok3, h3).
                   if \<not> ok3 then Inr (False, h3)
                   else
                     and_then
                       (if fl AND IB_zbuffloat \<noteq> 0 then addzbuffloatImBuf (Some a) h3
                        else Inr (True, h3)) (\<lambda>(ok4, h4).
                       if \<not> ok4 then Inr (False, h4) else Inr (True, h4)))))
         = Inr (True, h')"
    by (simp add: IMB_initImBuf_def nonnull_def load_live [OF live] and_then_eq_Inr) blast
  from r1 have ok1: ok1
    by (cases ok1) simp_all
  with r1 obtain ok2 h2 where
    2: "(if fl AND IB_rectfloat \<noteq> 0
                then and_then (load a h1) (\<lambda>ib.
                       imb_addrectfloatImBuf fuel (Some a) (channels ib) h1)
                else Inr (True, h1)) = Inr (ok2, h2)"
    and r2: "(if \<not> ok2 then Inr (False, h2)
               else
                 and_then
                   (if fl AND IB_zbuf \<noteq> 0 then addzbufImBuf (Some a) h2
                    else Inr (True, h2)) (\<lambda>(ok3, h3).
                   if \<not> ok3 then Inr (False, h3)
                   else
                     and_then
                       (if fl AND IB_zbuffloat \<noteq> 0 then addzbuffloatImBuf (Some a) h3
                        else Inr (True, h3)) (\<lambda>(ok4, h4).
                       if \<not> ok4 then Inr (False, h4) else Inr (True, h4))))
         = Inr (True, h')"
    by (simp add: and_then_eq_Inr) blast
  from r2 have ok2: ok2
    by (cases ok2) simp_all
  with r2 z have r3: "and_then
                       (if fl AND IB_zbuffloat \<noteq> 0 then addzbuffloatImBuf (Some a) h2
                        else Inr (True, h2)) (\<lambda>(ok4, h4).
                       if \<not> ok4 then Inr (False, h4) else Inr (True, h4)) = Inr (True, h')"
    by simp
  then have 4: "(if fl AND IB_zbuffloat \<noteq> 0 then addzbuffloatImBuf (Some a) h2
                        else Inr (True, h2)) = Inr (True, h')"
    by (auto simp: and_then_eq_Inr split: if_splits)
  from 1 ok1 have 1: "(if fl AND IB_rect \<noteq> 0 then imb_addrectImBuf (Some a) ?h0
      else Inr (True, ?h0)) = Inr (True, h1)"
    by simp
  have "untouched {a} ?h0 h1 \<and> (\<exists>ib'. ibufs h1 a = Some ib'
      \<and> flags ib' = flags ?z OR (if fl AND IB_rect \<noteq> 0 then IB_rect else 0))"
    using 1 live0 by (rule requested_step [where op = "imb_addrectImBuf (Some a)"])
      (rule imb_addrectImBuf_true)
  then obtain ib1 where u1: "untouched {a} ?h0 h1" and live1: "ibufs h1 a = Some ib1"
    and f1: "flags ib1 = flags ?z OR (if fl AND IB_rect \<noteq> 0 then IB_rect else 0)"
    by blast
  from 2 ok2 live1 have 2: "(if fl AND IB_rectfloat \<noteq> 0
      then imb_addrectfloatImBuf fuel (Some a) (channels ib1) h1
      else Inr (True, h1)) = Inr (True, h2)"
    by (simp add: load_live split: if_splits)
  have "untouched {a} h1 h2 \<and> (\<exists>ib'. ibufs h2 a = Some ib'
      \<and> flags ib' = flags ib1 OR (if fl AND IB_rectfloat \<noteq> 0 then IB_rectfloat else 0))"
    using 2 live1
    by (rule requested_step [where op = "imb_addrectfloatImBuf fuel (Some a) (channels ib1)"])
      (rule imb_addrectfloatImBuf_true)
  then obtain ib2 where u2: "untouched {a} h1 h2" and live2: "ibufs h2 a = Some ib2"
    and f2: "flags ib2 = flags ib1 OR (if fl AND IB_rectfloat \<noteq> 0 then IB_rectfloat else 0)"
    by blast
  have "untouched {a} h2 h' \<and> (\<exists>ib'. ibufs h' a = Some ib'
      \<and> flags ib' = flags ib2 OR (if fl AND IB_zbuffloat \<noteq> 0 then IB_zbuffloat else 0))"
    using 4 live2 by (rule requested_step [where op = "addzbuffloatImBuf (Some a)"])
      (rule addzbuffloatImBuf_true)
  then obtain ib4 where u4: "untouched {a} h2 h'" and live4: "ibufs h' a = Some ib4"
    and f4: "flags ib4 = flags ib2 OR (if fl AND IB_zbuffloat \<noteq> 0 then IB_zbuffloat else 0)"
    by blast
  have "untouched {a} h h'"
    using u0 u1 u2 u4 by (blast intro: untouched_trans)
  moreover have "flags ?z = 0"
    by (simp add: zero_ImBuf_def)
  ultimately show ?thesis
    using z live4 f4 f2 f1 by simp
qed

lemma IMB_allocImBuf_true:
  assumes run: "IMB_allocImBuf fuel x y pl fl h = Inr (Some a, h')"
  shows "untouched {a} h h' \<and> fl AND IB_zbuf = 0
     \<and> (\<exists>ib'. ibufs h' a = Some ib'
          \<and> flags ib' = ((if fl AND IB_rect \<noteq> 0 then IB_rect else 0)
                OR (if fl AND IB_rectfloat \<noteq> 0 then IB_rectfloat else 0))
                OR (if fl AND IB_zbuffloat \<noteq> 0 then IB_zbuffloat else 0))"
proof -
  obtain q1 h1 where c: "MEM_cnew_ImBuf h = (q1, h1)"
    by (cases "MEM_cnew_ImBuf h")
  from run c obtain a' where q1: "q1 = Some a'"
    by (cases q1) (simp_all add: IMB_allocImBuf_def)
  from c q1 have i1: "ibufs h1 = (ibufs h)(a' \<mapsto> zero_ImBuf)"
    by (auto simp: MEM_cnew_ImBuf_def split: if_splits)
  from run c q1 obtain r h2 where
    i: "IMB_initImBuf fuel (Some a') x y pl fl h1 = Inr (r, h2)"
    and fin: "(if \<not> r then and_then (IMB_freeImBuf fuel (Some a') h2) (\<lambda>h3. Inr (None, h3))
        else Inr (Some a', h2)) = Inr (Some a, h')"
    by (simp add: IMB_allocImBuf_def and_then_eq_Inr) blast
  from fin have r: r and a: "a' = a" and h': "h2 = h'"
    by (cases r; auto simp: and_then_eq_Inr)+
  from i r a h' have i': "IMB_initImBuf fuel (Some a) x y pl fl h1 = Inr (True, h')"
    by simp
  note t = IMB_initImBuf_true [OF i']
  from i1 have "untouched {a} h h1"
    unfolding a by (rule untouched_at)
  with t have "untouched {a} h h'"
    by (blast intro: untouched_trans)
  with t show ?thesis
    by simp
qed

lemma copy_pixels_ibufs:
  "copy_pixels w dst src a2 a1 n h = Inr h' \<Longrightarrow> ibufs h' = ibufs h"
  by (auto simp: copy_pixels_def and_then_eq_Inr dest: memcpy_ibufs split: if_splits)

lemma dup_flags_bits:
  "(dup_flags ib AND IB_rect \<noteq> 0) = (data (byte_buffer ib) \<noteq> None)"
  "(dup_flags ib AND IB_rectfloat \<noteq> 0) = (data (float_buffer ib) \<noteq> None)"
  "(dup_flags ib AND IB_zbuf \<noteq> 0) = (data (z_buffer ib) \<noteq> None)"
  "(dup_flags ib AND IB_zbuffloat \<noteq> 0) = (data (float_z_buffer ib) \<noteq> None)"
  by (simp_all add: dup_flags_def IB_rect_def IB_rectfloat_def IB_zbuf_def IB_zbuffloat_def)

lemma four_copies:
  assumes "and_then (copy_pixels c1 d1 s1 a2 a1 n1 h1) (\<lambda>h2.
      and_then (load a1 h2) (\<lambda>src2.
      and_then (copy_pixels c2 d2 s2 a2 a1 (n2 src2) h2) (\<lambda>h3.
      and_then (copy_pixels c3 d3 s3 a2 a1 n3 h3) (\<lambda>h4.
      and_then (copy_pixels c4 d4 s4 a2 a1 n4 h4) (\<lambda>h5.
      and_then (load a1 h5) (K h5)))))) = Inr r"
  shows "\<exists>h5 src5. ibufs h5 = ibufs h1 \<and> ibufs h5 a1 = Some src5 \<and> K h5 src5 = Inr r"
proof -
  from assms obtain h2 src2 h3 h4 h5 src5 where
    1: "copy_pixels c1 d1 s1 a2 a1 n1 h1 = Inr h2"
    and 2: "copy_pixels c2 d2 s2 a2 a1 (n2 src2) h2 = Inr h3"
    and 3: "copy_pixels c3 d3 s3 a2 a1 n3 h3 = Inr h4"
    and 4: "copy_pixels c4 d4 s4 a2 a1 n4 h4 = Inr h5"
    and 5: "load a1 h5 = Inr src5"
    and 6: "K h5 src5 = Inr r"
    unfolding and_then_eq_Inr by blast
  from 5 have "ibufs h5 a1 = Some src5"
    by (cases "ibufs h5 a1") (simp_all add: load_def)
  moreover have "ibufs h5 = ibufs h1"
    using copy_pixels_ibufs [OF 1] copy_pixels_ibufs [OF 2] copy_pixels_ibufs [OF 3]
      copy_pixels_ibufs [OF 4] by simp
  ultimately show ?thesis
    using 6 by blast
qed

lemma encoded_step:
  assumes ok: "heap_flags_ok h5"
    and run: "(if c
        then and_then (modify a2 g h5) (\<lambda>h6.
               and_then (imb_addencodedbufferImBuf (Some a2) h6) (\<lambda>(ok, h7).
                 if \<not> ok
                 then and_then (IMB_freeImBuf fuel (Some a2) h7) (\<lambda>h8. Inr (False, h8))
                 else and_then (load a1 h7) (\<lambda>src7.
                        and_then (copy_pixels True encoded_buffer encoded_buffer a2 a1
                                    (n src7) h7) (\<lambda>h8. Inr (True, h8)))))
        else Inr (True, h5)) = Inr (go_on, h9)"
    and g1: "\<And>ib. flags (g ib) = flags ib"
    and g2: "\<And>ib. flags_ok ib \<Longrightarrow> flags_ok (g ib)"
  shows "heap_flags_ok h9"
    and "go_on \<Longrightarrow> untouched {a2} h5 h9"
    and "go_on \<Longrightarrow> ibufs h5 a2 = Some ib5 \<Longrightarrow>
           \<exists>ib9. ibufs h9 a2 = Some ib9 \<and> flags ib9 = flags ib5 OR (if c then IB_mem else 0)"
proof -
  have "heap_flags_ok h9 \<and> (go_on \<longrightarrow> untouched {a2} h5 h9)
     \<and> (go_on \<longrightarrow> (\<forall>ib5. ibufs h5 a2 = Some ib5 \<longrightarrow>
           (\<exists>ib9. ibufs h9 a2 = Some ib9 \<and> flags ib9 = flags ib5 OR (if c then IB_mem else 0))))"
  proof (cases c)
    case False
    with run ok show ?thesis by auto
  next
    case True
    with run obtain h6 ok7 h7 where
      m: "modify a2 g h5 = Inr h6"
      and e: "imb_addencodedbufferImBuf (Some a2) h6 = Inr (ok7, h7)"
      and fin: "(if \<not> ok7
                 then and_then (IMB_freeImBuf fuel (Some a2) h7) (\<lambda>h8. Inr (False, h8))
                 else and_then (load a1 h7) (\<lambda>src7.
                        and_then (copy_pixels True encoded_buffer encoded_buffer a2 a1
                                    (n src7) h7) (\<lambda>h8. Inr (True, h8)))) = Inr (go_on, h9)"
      by (simp add: and_then_eq_Inr) blast
    from ok m have ok6: "heap_flags_ok h6"
      by (rule modify_keeps_flags) (rule g2)
    from ok6 e have ok7: "heap_flags_ok h7"
      by (rule imb_addencodedbufferImBuf_keeps_flags)
    show ?thesis
    proof (cases ok7)
      case False
      with fin have "IMB_freeImBuf fuel (Some a2) h7 = Inr h9" and "\<not> go_on"
        by (auto simp: and_then_eq_Inr)
      with ok7 show ?thesis
        by (auto dest: IMB_freeImBuf_keeps_flags)
    next
      case ok: True
      with fin obtain src7 where
        c: "copy_pixels True encoded_buffer encoded_buffer a2 a1 (n src7) h7 = Inr h9"
        and go: go_on
        by (auto simp: and_then_eq_Inr)
      from copy_pixels_ibufs [OF c] have i9: "ibufs h9 = ibufs h7" .
      from i9 ok7 have ok9: "heap_flags_ok h9"
        by (rule heap_flags_ok_same)
      from modify_effect [OF m] obtain ib5 where
        live5: "ibufs h5 a2 = Some ib5" and h6: "h6 = store a2 (g ib5) h5"
        by blast
      have live6: "ibufs h6 a2 = Some (g ib5)"
        by (simp add: h6)
      from e ok have "imb_addencodedbufferImBuf (Some a2) h6 = Inr (True, h7)"
        by simp
      from imb_addencodedbufferImBuf_true [OF this live6]
      obtain ib7 where u67: "untouched {a2} h6 h7" and live7: "ibufs h7 a2 = Some ib7"
        and f7: "flags ib7 = flags ib5 OR IB_mem"
        by (auto simp: g1)
      have "untouched {a2} h5 h6"
        by (simp add: h6 untouched_store)
      then have "untouched {a2} h5 h7"
        using u67 by (rule untouched_trans)
      moreover from i9 have "untouched {a2} h7 h9"
        by (rule untouched_same_ibufs)
      ultimately have "untouched {a2} h5 h9"
        by (rule untouched_trans)
      with ok9 live5 live7 f7 i9 True show ?thesis
        by simp
    qed
  qed
  then show "heap_flags_ok h9"
    and "go_on \<Longrightarrow> untouched {a2} h5 h9"
    and "go_on \<Longrightarrow> ibufs h5 a2 = Some ib5 \<Longrightarrow>
           \<exists>ib9. ibufs h9 a2 = Some ib9 \<and> flags ib9 = flags ib5 OR (if c then IB_mem else 0)"
    by blast+
qed

text \<open>
  The struct that \<open>IMB_dupImBuf\<close> writes last: the scalar fields and the flags of the source,
  the slots of the duplicate.
\<close>

lemma dup_result_flags_ok:
  assumes same: "\<And>sl. (flags tbuf AND slot_flag sl \<noteq> 0) = (flags ib2 AND slot_flag sl \<noteq> 0)"
    and fo: "flags_ok ib2"
  shows "flags_ok (tbuf\<lparr>byte_buffer := byte_buffer ib2,
                         float_buffer := float_buffer ib2,
                         encoded_buffer := encoded_buffer ib2,
                         z_buffer := z_buffer ib2,
                         float_z_buffer := float_z_buffer ib2,
                         mipmap := m, dds_data := dd, refcounter := rc, metadata := md,
                         display_buffer_flags := df, colormanage_cache := cc\<rparr>)"
  unfolding flags_ok_all
proof
  fix sl
  let ?r = "tbuf\<lparr>byte_buffer := byte_buffer ib2,
                         float_buffer := float_buffer ib2,
                         encoded_buffer := encoded_buffer ib2,
                         z_buffer := z_buffer ib2,
                         float_z_buffer := float_z_buffer ib2,
                         mipmap := m, dds_data := dd, refcounter := rc, metadata := md,
                         display_buffer_flags := df, colormanage_cache := cc\<rparr>"
  have "slot_of sl ?r = slot_of sl ib2"
    by (cases sl) simp_all
  moreover have "flags ?r = flags tbuf"
    by simp
  moreover from fo have "flag_matches sl ib2"
    by (simp add: flags_ok_all)
  ultimately show "flag_matches sl ?r"
    using same [of sl] by (simp add: flag_matches_def)
qed

lemma dup_flag_bits:
  assumes fo: "flags_ok src"
    and z: "dup_flags src AND IB_zbuf = 0"
    and f2: "flags ib2 =
       (((if dup_flags src AND IB_rect \<noteq> 0 then IB_rect else 0)
          OR (if dup_flags src AND IB_rectfloat \<noteq> 0 then IB_rectfloat else 0))
          OR (if dup_flags src AND IB_zbuffloat \<noteq> 0 then IB_zbuffloat else 0))
          OR (if data (encoded_buffer src) \<noteq> None then IB_mem else 0)"
  shows "(flags src AND slot_flag sl \<noteq> 0) = (flags ib2 AND slot_flag sl \<noteq> 0)"
proof -
  from z have nz: "data (z_buffer src) = None"
    using dup_flags_bits(3) [of src] by auto
  from fo have m: "(flags src AND slot_flag sl \<noteq> 0) = (data (slot_of sl src) \<noteq> None)"
    by (simp add: flags_ok_all flag_matches_def)
  have "(flags ib2 AND slot_flag sl \<noteq> 0) = (data (slot_of sl src) \<noteq> None)"
    unfolding f2 dup_flags_bits using nz
    by (cases sl)
       (simp_all add: IB_rect_def IB_rectfloat_def IB_zbuf_def IB_zbuffloat_def IB_mem_def)
  with m show ?thesis
    by simp
qed

lemma IMB_dupImBuf_keeps_flags:
  assumes ok: "heap_flags_ok h" and run: "IMB_dupImBuf fuel p h = Inr (q, h')"
  shows "heap_flags_ok h'"
proof (cases p)
  case None
  with ok run show ?thesis
    by (simp add: IMB_dupImBuf_def)
next
  case (Some a1)
  from run obtain src where live: "ibufs h a1 = Some src"
    unfolding Some by (cases "ibufs h a1") (simp_all add: IMB_dupImBuf_def load_dead)
  from ok live have fo: "flags_ok src"
    by (rule heap_flags_okD)
  let ?flgs = "dup_flags src"
  let ?x = "size_t_of_int (dim_x src)"
  let ?y = "size_t_of_int (dim_y src)"
  let ?FIN = "\<lambda>ibuf2 a2 h9.
      and_then (load a1 h9) (\<lambda>tbuf.
        and_then (load a2 h9) (\<lambda>ib2.
          Inr (ibuf2,
               store a2
                 (tbuf\<lparr>byte_buffer := byte_buffer ib2,
                       float_buffer := float_buffer ib2,
                       encoded_buffer := encoded_buffer ib2,
                       z_buffer := z_buffer ib2,
                       float_z_buffer := float_z_buffer ib2,
                       mipmap := fold (\<lambda>l m. m(l := None))
                                   [0..<IMB_MIPMAP_LEVELS] (mipmap tbuf),
                       dds_data := None,
                       refcounter := 0,
                       metadata := None,
                       display_buffer_flags := None,
                       colormanage_cache := None\<rparr>)
                 h9)))"
  let ?ENC = "\<lambda>ibuf2 a2 h5 src5.
      if data (encoded_buffer src5) \<noteq> None
      then
        and_then (modify a2 (\<lambda>ib2.
            ib2\<lparr>encoded_buffer_size := encoded_buffer_size src5\<rparr>) h5) (\<lambda>h6.
          and_then (imb_addencodedbufferImBuf ibuf2 h6) (\<lambda>(ok, h7).
            if \<not> ok
            then and_then (IMB_freeImBuf fuel ibuf2 h7) (\<lambda>h8. Inr (False, h8))
            else
              and_then (load a1 h7) (\<lambda>src7.
                and_then (copy_pixels True encoded_buffer encoded_buffer a2 a1
                            (unat (encoded_size src7)) h7) (\<lambda>h8.
                  Inr (True, h8)))))
      else Inr (True, h5)"
  let ?TAIL = "\<lambda>ibuf2 a2 h1.
      and_then (copy_pixels (?flgs AND IB_rect \<noteq> 0) byte_buffer byte_buffer a2 a1
                  ((?x * ?y * 4 * 1) mod 2 ^ 64) h1) (\<lambda>h2.
      and_then (load a1 h2) (\<lambda>src2.
      and_then (copy_pixels (?flgs AND IB_rectfloat \<noteq> 0) float_buffer float_buffer
                  a2 a1 ((unat (channels src2) * ?x * ?y * 4) mod 2 ^ 64) h2) (\<lambda>h3.
      and_then (copy_pixels (?flgs AND IB_zbuf \<noteq> 0) z_buffer z_buffer a2 a1
                  ((?x * ?y * 4) mod 2 ^ 64) h3) (\<lambda>h4.
      and_then (copy_pixels (?flgs AND IB_zbuffloat \<noteq> 0) float_buffer float_buffer
                  a2 a1 ((?x * ?y * 4) mod 2 ^ 64) h4) (\<lambda>h5.
      and_then (load a1 h5) (\<lambda>src5.
      and_then (?ENC ibuf2 a2 h5 src5) (\<lambda>(go_on, h9).
        if \<not> go_on then Inr (None, h9) else ?FIN ibuf2 a2 h9)))))))"
  from run have run': "and_then
      (IMB_allocImBuf fuel (dim_x src) (dim_y src) (planes src) ?flgs h) (\<lambda>(ibuf2, h1).
        case ibuf2 of None \<Rightarrow> Inr (None, h1) | Some a2 \<Rightarrow> ?TAIL ibuf2 a2 h1) = Inr (q, h')"
    by (simp add: IMB_dupImBuf_def Some load_live [OF live] Let_def)
  then obtain q2 h1 where
    alloc: "IMB_allocImBuf fuel (dim_x src) (dim_y src) (planes src) ?flgs h = Inr (q2, h1)"
    and rest: "(case q2 of None \<Rightarrow> Inr (None, h1) | Some a2 \<Rightarrow> ?TAIL q2 a2 h1) = Inr (q, h')"
    by (simp add: and_then_eq_Inr) blast
  from ok alloc have ok1: "heap_flags_ok h1"
    by (rule IMB_allocImBuf_keeps_flags)
  show ?thesis
  proof (cases q2)
    case None
    with rest ok1 show ?thesis by simp
  next
    case q2: (Some a2)
    from rest have tail: "?TAIL (Some a2) a2 h1 = Inr (q, h')"
      unfolding q2 by (simp only: option.case)
    from four_copies [OF tail]
    obtain h5 src5 where i5: "ibufs h5 = ibufs h1" and live5: "ibufs h5 a1 = Some src5"
      and ef: "and_then (?ENC (Some a2) a2 h5 src5) (\<lambda>(go_on, h9).
        if \<not> go_on then Inr (None, h9) else ?FIN (Some a2) a2 h9) = Inr (q, h')"
      by blast
    from i5 ok1 have ok5: "heap_flags_ok h5"
      by (rule heap_flags_ok_same)
    from ef obtain go_on h9 where
      enc: "?ENC (Some a2) a2 h5 src5 = Inr (go_on, h9)"
      and fin: "(if \<not> go_on then Inr (None, h9) else ?FIN (Some a2) a2 h9) = Inr (q, h')"
      by (simp add: and_then_eq_Inr) blast
    note e = encoded_step [OF ok5 enc]
    have ok9: "heap_flags_ok h9"
      by (rule e(1)) simp_all
    show ?thesis
    proof (cases go_on)
      case False
      with fin ok9 show ?thesis by simp
    next
      case True
      have u59: "untouched {a2} h5 h9"
        by (rule e(2)) (simp_all add: True)
      from fin True obtain tbuf ib2 where
        livet: "ibufs h9 a1 = Some tbuf" and live2: "ibufs h9 a2 = Some ib2"
        and h': "h' = store a2
                 (tbuf\<lparr>byte_buffer := byte_buffer ib2,
                       float_buffer := float_buffer ib2,
                       encoded_buffer := encoded_buffer ib2,
                       z_buffer := z_buffer ib2,
                       float_z_buffer := float_z_buffer ib2,
                       mipmap := fold (\<lambda>l m. m(l := None))
                                   [0..<IMB_MIPMAP_LEVELS] (mipmap tbuf),
                       dds_data := None,
                       refcounter := 0,
                       metadata := None,
                       display_buffer_flags := None,
                       colormanage_cache := None\<rparr>)
                 h9"
        by (cases "ibufs h9 a1"; cases "ibufs h9 a2") (auto simp: load_def)
      from ok9 live2 have fo2: "flags_ok ib2"
        by (rule heap_flags_okD)
      have same: "(flags tbuf AND slot_flag sl \<noteq> 0) = (flags ib2 AND slot_flag sl \<noteq> 0)" for sl
      proof (cases "a1 = a2")
        case True
        with livet live2 show ?thesis by simp
      next
        case False
        note t = IMB_allocImBuf_true [OF alloc [unfolded q2]]
        from t have u01: "untouched {a2} h h1" and z: "?flgs AND IB_zbuf = 0"
          by simp_all
        from t obtain ib1 where live1: "ibufs h1 a2 = Some ib1"
          and f1: "flags ib1 = ((if ?flgs AND IB_rect \<noteq> 0 then IB_rect else 0)
                OR (if ?flgs AND IB_rectfloat \<noteq> 0 then IB_rectfloat else 0))
                OR (if ?flgs AND IB_zbuffloat \<noteq> 0 then IB_zbuffloat else 0)"
          by blast
        from i5 have "untouched {a2} h1 h5"
          by (rule untouched_same_ibufs)
        with u01 have u05: "untouched {a2} h h5"
          by (rule untouched_trans)
        then have u09: "untouched {a2} h h9"
          using u59 by (rule untouched_trans)
        from False have notin: "a1 \<notin> {a2}" by simp
        from untouchedD [OF u05 notin live5] live
        have s5: "src5 = src\<lparr>refcounter := refcounter src5\<rparr>"
          by simp
        from untouchedD [OF u09 notin livet] live
        have st: "tbuf = src\<lparr>refcounter := refcounter tbuf\<rparr>"
          by simp
        have e5: "data (encoded_buffer src5) = data (encoded_buffer src)"
          by (subst s5) simp
        have ft: "flags tbuf = flags src"
          by (subst st) simp
        from live1 i5 have live52: "ibufs h5 a2 = Some ib1"
          by simp
        have "\<exists>ib9. ibufs h9 a2 = Some ib9 \<and> flags ib9
            = flags ib1 OR (if data (encoded_buffer src5) \<noteq> None then IB_mem else 0)"
          by (rule e(3) [OF _ _ True live52]) simp_all
        with live2 have f2: "flags ib2
            = flags ib1 OR (if data (encoded_buffer src) \<noteq> None then IB_mem else 0)"
          by (simp add: e5)
        show ?thesis
          unfolding ft by (rule dup_flag_bits [OF fo z]) (simp only: f2 f1)
      qed
      have "flags_ok (tbuf\<lparr>byte_buffer := byte_buffer ib2,
                       float_buffer := float_buffer ib2,
                       encoded_buffer := encoded_buffer ib2,
                       z_buffer := z_buffer ib2,
                       float_z_buffer := float_z_buffer ib2,
                       mipmap := fold (\<lambda>l m. m(l := None))
                                   [0..<IMB_MIPMAP_LEVELS] (mipmap tbuf),
                       dds_data := None,
                       refcounter := 0,
                       metadata := None,
                       display_buffer_flags := None,
                       colormanage_cache := None\<rparr>)"
        using same fo2 by (rule dup_result_flags_ok)
      moreover have "ibufs h' = (ibufs h9)(a2 \<mapsto>
                  tbuf\<lparr>byte_buffer := byte_buffer ib2,
                       float_buffer := float_buffer ib2,
                       encoded_buffer := encoded_buffer ib2,
                       z_buffer := z_buffer ib2,
                       float_z_buffer := float_z_buffer ib2,
                       mipmap := fold (\<lambda>l m. m(l := None))
                                   [0..<IMB_MIPMAP_LEVELS] (mipmap tbuf),
                       dds_data := None,
                       refcounter := 0,
                       metadata := None,
                       display_buffer_flags := None,
                       colormanage_cache := None\<rparr>)"
        by (simp add: h')
      ultimately show ?thesis
        using heap_flags_ok_update [OF ok9] by blast
    qed
  qed
qed

lemma IMB_metadata_free_ibufs [simp]: "ibufs (IMB_metadata_free md h) = ibufs h"
  by (simp add: IMB_metadata_free_def split: option.splits)

lemma IMB_metadata_copy_keeps_flags:
  assumes ok: "heap_flags_ok h" and run: "IMB_metadata_copy dimb simb h = Inr h'"
  shows "heap_flags_ok h'"
proof -
  from run have "h' = h \<or> (\<exists>d dst. ibufs h d = Some dst
      \<and> ibufs h' = (ibufs h)(d \<mapsto> dst\<lparr>metadata := Some (requests h)\<rparr>))"
  proof (cases "h' = h")
    case True
    then show ?thesis by simp
  next
    case False
    with run obtain d dst where "ibufs h d = Some dst"
      and "h' = store d (dst\<lparr>metadata := Some (requests h)\<rparr>)
                      ((IMB_metadata_free (metadata dst) h)
                         \<lparr>externals := insert (requests h)
                                         (externals (IMB_metadata_free (metadata dst) h)),
                          requests := Suc (requests h)\<rparr>)"
      by (auto simp: IMB_metadata_copy_def and_then_eq_Inr nonnull_def load_def
          split: option.splits if_splits)
    then have "ibufs h d = Some dst
      \<and> ibufs h' = (ibufs h)(d \<mapsto> dst\<lparr>metadata := Some (requests h)\<rparr>)"
      by simp
    then show ?thesis by blast
  qed
  then show ?thesis
  proof
    assume "h' = h"
    with ok show ?thesis by simp
  next
    assume "\<exists>d dst. ibufs h d = Some dst
      \<and> ibufs h' = (ibufs h)(d \<mapsto> dst\<lparr>metadata := Some (requests h)\<rparr>)"
    then obtain d dst where live: "ibufs h d = Some dst"
      and i: "ibufs h' = (ibufs h)(d \<mapsto> dst\<lparr>metadata := Some (requests h)\<rparr>)"
      by blast
    from ok live have "flags_ok dst"
      by (rule heap_flags_okD)
    then have "flags_ok (dst\<lparr>metadata := Some (requests h)\<rparr>)"
      by simp
    with ok i show ?thesis
      by (rule heap_flags_ok_update)
  qed
qed

lemma IMB_makeSingleUser_keeps_flags:
  assumes ok: "heap_flags_ok h" and run: "IMB_makeSingleUser fuel p h = Inr (q, h')"
  shows "heap_flags_ok h'"
proof (cases p)
  case None
  with ok run show ?thesis
    by (simp add: IMB_makeSingleUser_def)
next
  case (Some a)
  from run obtain ib where live: "ibufs h a = Some ib"
    unfolding Some by (cases "ibufs h a") (simp_all add: IMB_makeSingleUser_def load_dead)
  show ?thesis
  proof (cases "refcounter ib = 0")
    case True
    with run ok show ?thesis
      by (simp add: IMB_makeSingleUser_def Some load_live [OF live])
  next
    case False
    with run obtain rval h1 h2 where
      1: "IMB_dupImBuf fuel (Some a) h = Inr (rval, h1)"
      and 2: "IMB_metadata_copy rval (Some a) h1 = Inr h2"
      and 3: "IMB_freeImBuf fuel (Some a) h2 = Inr h'"
      by (auto simp: IMB_makeSingleUser_def Some load_live [OF live] and_then_eq_Inr)
    from ok 1 have "heap_flags_ok h1"
      by (rule IMB_dupImBuf_keeps_flags)
    then have "heap_flags_ok h2"
      using 2 by (rule IMB_metadata_copy_keeps_flags)
    then show ?thesis
      using 3 by (rule IMB_freeImBuf_keeps_flags)
  qed
qed

lemma heap_painted_ok: "heap_flags_ok heap_painted"
  by (simp add: heap_flags_ok_def heap_painted_def painted_image_def flags_ok_def
      flag_matches_def zero_ImBuf_def zero_buffer_def IB_rect_def IB_zbuf_def IB_mem_def
      IB_rectfloat_def IB_zbuffloat_def)

lemma heap_lent_ok: "heap_flags_ok heap_lent"
  by (simp add: heap_flags_ok_def heap_lent_def lent_image_def flags_ok_def
      flag_matches_def zero_ImBuf_def zero_buffer_def IB_rect_def IB_zbuf_def IB_mem_def
      IB_rectfloat_def IB_zbuffloat_def)

lemma not_heap_flags_ok:
  "ibufs h a = Some ib \<Longrightarrow> \<not> flag_matches sl ib \<Longrightarrow> \<not> heap_flags_ok h"
  by (auto simp: heap_flags_ok_def flags_ok_all)

lemma addrect_painted:
  "imb_addrectImBuf (Some 0) heap_painted
     = Inr (False, heap_painted
         \<lparr>blocks := (\<lambda>a. None),
          ibufs := (\<lambda>a. None)(0 \<mapsto> painted_image\<lparr>byte_buffer := zero_buffer\<rparr>),
          requests := 3\<rparr>)"
  by (simp add: imb_addrectImBuf_def heap_painted_def painted_image_def free_slot_def load_def
      imb_free_buffer_def MEM_freeN_def store_def alloc_slot_def imb_alloc_buffer_def
      imb_alloc_pixels_def SIZE_MAX_def MEM_callocN_def zero_ImBuf_def zero_buffer_def)

lemma steal_byte_lent:
  "IMB_steal_byte_buffer (Some 0) heap_lent
     = Inr (None, heap_lent\<lparr>ibufs := (\<lambda>a. None)(0 \<mapsto> lent_image\<lparr>flags := IB_rectfloat\<rparr>)\<rparr>)"
  by (simp add: IMB_steal_byte_buffer_def nonnull_def steal_slot_def load_def heap_lent_def
      lent_image_def imb_steal_buffer_data_def store_def clear_flag_def modify_def
      zero_ImBuf_def zero_buffer_def IB_rect_def IB_rectfloat_def)

lemma allocFromBuffer_lent:
  "\<exists>h' ib'. IMB_allocFromBuffer 0 (Some 1) None 2 1 4 heap_lent = Inr (Some 4, h')
      \<and> ibufs h' 4 = Some ib' \<and> flags ib' = 0 \<and> data (byte_buffer ib') = Some 5"
  by (simp add: IMB_allocFromBuffer_def IMB_allocImBuf_def MEM_cnew_ImBuf_def heap_lent_def
      IMB_initImBuf_def nonnull_def load_def modify_def store_def alloc_slot_def
      imb_alloc_buffer_def imb_alloc_pixels_def SIZE_MAX_def MEM_callocN_def memcpy_def
      zero_ImBuf_def zero_buffer_def IB_rect_def IB_zbuf_def IB_rectfloat_def IB_zbuffloat_def)

lemma steal_float_lent:
  "IMB_steal_float_buffer (Some 0) heap_lent
     = Inr (None, heap_lent\<lparr>ibufs := (\<lambda>a. None)(0 \<mapsto> lent_image\<lparr>flags := IB_rect\<rparr>)\<rparr>)"
  by (simp add: IMB_steal_float_buffer_def nonnull_def steal_slot_def load_def heap_lent_def
      lent_image_def imb_steal_buffer_data_def store_def clear_flag_def modify_def
      zero_ImBuf_def zero_buffer_def IB_rect_def IB_rectfloat_def)

lemma addrectfloat_painted:
  "\<exists>h'. imb_addrectfloatImBuf 0 (Some 0) 4 heap_painted = Inr (False, h')"
  by (simp add: imb_addrectfloatImBuf_def heap_painted_def painted_image_def load_def
      alloc_slot_def imb_alloc_buffer_def imb_alloc_pixels_def SIZE_MAX_def MEM_callocN_def
      store_def zero_ImBuf_def zero_buffer_def)

lemma steal_byte_painted:
  "\<exists>h'. IMB_steal_byte_buffer (Some 0) heap_painted = Inr (Some 1, h')"
  by (simp add: IMB_steal_byte_buffer_def nonnull_def steal_slot_def load_def heap_painted_def
      painted_image_def imb_steal_buffer_data_def store_def clear_flag_def modify_def
      zero_ImBuf_def)

lemma addrect_lent:
  "\<exists>h' ib'. imb_addrectImBuf (Some 0) heap_lent = Inr (True, h') \<and> ibufs h' 0 = Some ib'
      \<and> data (byte_buffer ib') = Some 4"
  by (simp add: imb_addrectImBuf_def heap_lent_def lent_image_def free_slot_def load_def
      imb_free_buffer_def MEM_freeN_def store_def alloc_slot_def imb_alloc_buffer_def
      imb_alloc_pixels_def SIZE_MAX_def MEM_callocN_def zero_ImBuf_def zero_buffer_def
      set_flag_def modify_def)

lemma assign_shared_lent:
  "\<exists>h'. IMB_assign_shared_float_buffer (Some 0) (Some 2) (Some 3) heap_lent = Inr h'"
  by (simp add: IMB_assign_shared_float_buffer_def assign_shared_slot_def nonnull_def
      free_slot_def load_def heap_lent_def lent_image_def imb_free_buffer_def
      remove_user_and_delete_if_last_def store_def clear_flag_def modify_def
      imb_assign_shared_buffer_def add_user_def set_flag_def zero_ImBuf_def zero_buffer_def)

lemma dup_lent:
  "\<exists>h'. IMB_dupImBuf 0 (Some 0) heap_lent = Inr (Some 4, h')"
  by (simp add: IMB_dupImBuf_def dup_flags_def lent_image_def Let_def
     IMB_allocImBuf_def MEM_cnew_ImBuf_def heap_lent_def IMB_initImBuf_def nonnull_def
     IB_rect_def IB_zbuf_def IB_rectfloat_def IB_zbuffloat_def imb_addrectfloatImBuf_def
     imb_addrectImBuf_def zero_ImBuf_def zero_buffer_def alloc_slot_def imb_alloc_buffer_def
     imb_alloc_pixels_def SIZE_MAX_def MEM_callocN_def modify_def store_def free_slot_def
     clear_flag_def set_flag_def imb_free_buffer_def copy_pixels_def memcpy_def load_def
     size_t_of_int_def)

text \<open>
  C7, counterexample. Four public operations break the invariant on a heap that satisfies
  it. \<open>imb_addrectImBuf\<close> frees the byte slot without clearing \<open>IB_rect\<close>: when the
  allocation that follows is refused, the flag is set over a null data pointer. The steal
  functions clear the flag in every case, but \<open>imb_steal_buffer_data\<close> leaves a slot that
  does not own its data as it is: after \<open>IMB_steal_byte_buffer\<close> on a borrowed slot and after
  \<open>IMB_steal_float_buffer\<close> on a shared slot the flag is clear over a data pointer that is
  not null. \<open>IMB_allocFromBuffer\<close> fills the byte slot of the image buffer it creates and
  does not set \<open>IB_rect\<close>.
\<close>

theorem flag_invariant_counterexample:
  "heap_flags_ok heap_painted
   \<and> (\<exists>h' ib'. imb_addrectImBuf (Some 0) heap_painted = Inr (False, h')
        \<and> ibufs h' 0 = Some ib' \<and> flags ib' AND IB_rect \<noteq> 0
        \<and> data (byte_buffer ib') = None \<and> \<not> heap_flags_ok h')
   \<and> heap_flags_ok heap_lent
   \<and> (\<exists>h' ib'. IMB_steal_byte_buffer (Some 0) heap_lent = Inr (None, h')
        \<and> ibufs h' 0 = Some ib' \<and> flags ib' AND IB_rect = 0
        \<and> data (byte_buffer ib') = Some 1 \<and> \<not> heap_flags_ok h')
   \<and> (\<exists>h' ib'. IMB_steal_float_buffer (Some 0) heap_lent = Inr (None, h')
        \<and> ibufs h' 0 = Some ib' \<and> flags ib' AND IB_rectfloat = 0
        \<and> data (float_buffer ib') = Some 2 \<and> implicit_sharing (float_buffer ib') = Some 3
        \<and> \<not> heap_flags_ok h')
   \<and> (\<exists>h' ib'. IMB_allocFromBuffer 0 (Some 1) None 2 1 4 heap_lent = Inr (Some 4, h')
        \<and> ibufs h' 4 = Some ib' \<and> flags ib' AND IB_rect = 0
        \<and> data (byte_buffer ib') = Some 5 \<and> \<not> heap_flags_ok h')"
proof -
  let ?h1 = "heap_painted
         \<lparr>blocks := (\<lambda>a. None),
          ibufs := (\<lambda>a. None)(0 \<mapsto> painted_image\<lparr>byte_buffer := zero_buffer\<rparr>),
          requests := 3\<rparr>"
  let ?h2 = "heap_lent\<lparr>ibufs := (\<lambda>a. None)(0 \<mapsto> lent_image\<lparr>flags := IB_rectfloat\<rparr>)\<rparr>"
  let ?h3 = "heap_lent\<lparr>ibufs := (\<lambda>a. None)(0 \<mapsto> lent_image\<lparr>flags := IB_rect\<rparr>)\<rparr>"
  have "\<not> flag_matches ByteBuffer (painted_image\<lparr>byte_buffer := zero_buffer\<rparr>)"
    by (simp add: flag_matches_def painted_image_def zero_buffer_def zero_ImBuf_def IB_rect_def)
  then have 1: "\<not> heap_flags_ok ?h1"
    by (intro not_heap_flags_ok [where a = 0 and sl = ByteBuffer]) simp_all
  have "\<not> flag_matches ByteBuffer (lent_image\<lparr>flags := IB_rectfloat\<rparr>)"
    by (simp add: flag_matches_def lent_image_def zero_ImBuf_def IB_rect_def IB_rectfloat_def)
  then have 2: "\<not> heap_flags_ok ?h2"
    by (intro not_heap_flags_ok [where a = 0 and sl = ByteBuffer]) simp_all
  have "\<not> flag_matches FloatBuffer (lent_image\<lparr>flags := IB_rect\<rparr>)"
    by (simp add: flag_matches_def lent_image_def zero_ImBuf_def IB_rect_def IB_rectfloat_def)
  then have 3: "\<not> heap_flags_ok ?h3"
    by (intro not_heap_flags_ok [where a = 0 and sl = FloatBuffer]) simp_all
  have a: "flags (painted_image\<lparr>byte_buffer := zero_buffer\<rparr>) AND IB_rect \<noteq> 0"
    "data (byte_buffer (painted_image\<lparr>byte_buffer := zero_buffer\<rparr>)) = None"
    by (simp_all add: painted_image_def zero_buffer_def zero_ImBuf_def IB_rect_def)
  have b: "flags (lent_image\<lparr>flags := IB_rectfloat\<rparr>) AND IB_rect = 0"
    "data (byte_buffer (lent_image\<lparr>flags := IB_rectfloat\<rparr>)) = Some 1"
    by (simp_all add: lent_image_def zero_ImBuf_def IB_rect_def IB_rectfloat_def)
  have c: "flags (lent_image\<lparr>flags := IB_rect\<rparr>) AND IB_rectfloat = 0"
    "data (float_buffer (lent_image\<lparr>flags := IB_rect\<rparr>)) = Some 2"
    "implicit_sharing (float_buffer (lent_image\<lparr>flags := IB_rect\<rparr>)) = Some 3"
    by (simp_all add: lent_image_def zero_ImBuf_def IB_rect_def IB_rectfloat_def)
  from allocFromBuffer_lent obtain h4 ib4 where
    r4: "IMB_allocFromBuffer 0 (Some 1) None 2 1 4 heap_lent = Inr (Some 4, h4)"
    and live4: "ibufs h4 4 = Some ib4" and f4: "flags ib4 = 0"
    and d4: "data (byte_buffer ib4) = Some 5"
    by blast
  from f4 d4 have "\<not> flag_matches ByteBuffer ib4"
    by (simp add: flag_matches_def)
  with live4 have 4: "\<not> heap_flags_ok h4"
    by (rule not_heap_flags_ok)
  from r4 live4 f4 d4 4 have d: "\<exists>h' ib'.
      IMB_allocFromBuffer 0 (Some 1) None 2 1 4 heap_lent = Inr (Some 4, h')
        \<and> ibufs h' 4 = Some ib' \<and> flags ib' AND IB_rect = 0
        \<and> data (byte_buffer ib') = Some 5 \<and> \<not> heap_flags_ok h'"
    by simp
  show ?thesis
    using 1 2 3 a b c d
    by (simp add: heap_painted_ok heap_lent_ok addrect_painted steal_byte_lent steal_float_lent)
qed

text \<open>
  C7, amended. On a heap that satisfies the invariant, each of the following operations,
  whenever it returns, leaves a heap that satisfies it, on its failure paths too:
  \<open>IMB_freeImBuf\<close>, \<open>IMB_refImBuf\<close>, \<open>imb_freemipmapImBuf\<close>, \<open>imb_freerectfloatImBuf\<close>,
  \<open>imb_freerectImBuf\<close>, \<open>IMB_freezbufImBuf\<close>, \<open>IMB_freezbuffloatImBuf\<close>,
  \<open>imb_freerectImbuf_all\<close>, \<open>addzbufImBuf\<close>, \<open>addzbuffloatImBuf\<close>,
  \<open>imb_addencodedbufferImBuf\<close>, \<open>imb_enlargeencodedbufferImBuf\<close>, \<open>imb_addrectfloatImBuf\<close>,
  the two \<open>IMB_make_writable_*_buffer\<close> functions (for which a refused duplication is a
  fault and not a return), the four \<open>IMB_assign_*_buffer\<close> functions, \<open>IMB_initImBuf\<close>, \<open>IMB_allocImBuf\<close>, \<open>IMB_allocFromBufferOwn\<close>,
  \<open>IMB_dupImBuf\<close> and \<open>IMB_makeSingleUser\<close>, with no further condition;
  \<open>imb_addrectImBuf\<close>, when the byte slot was empty before the call or is populated after
  it; each of the three \<open>IMB_steal_*_buffer\<close> functions, when the slot is empty or owns its
  data; and each of the three \<open>IMB_assign_shared_*_buffer\<close> functions, when a data pointer
  that is not null comes with a sharing handle that is not null.
\<close>

theorem flag_invariant_preserved:
  assumes ok: "heap_flags_ok h"
  shows
    "(\<forall>fuel p h'. IMB_freeImBuf fuel p h = Inr h' \<longrightarrow> heap_flags_ok h')
   \<and> (\<forall>p h'. IMB_refImBuf p h = Inr h' \<longrightarrow> heap_flags_ok h')
   \<and> (\<forall>fuel p h'. imb_freemipmapImBuf (IMB_freeImBuf fuel) p h = Inr h' \<longrightarrow> heap_flags_ok h')
   \<and> (\<forall>fuel p h'. imb_freerectfloatImBuf (IMB_freeImBuf fuel) p h = Inr h'
         \<longrightarrow> heap_flags_ok h')
   \<and> (\<forall>fuel p h'. imb_freerectImBuf (IMB_freeImBuf fuel) p h = Inr h' \<longrightarrow> heap_flags_ok h')
   \<and> (\<forall>p h'. IMB_freezbufImBuf p h = Inr h' \<longrightarrow> heap_flags_ok h')
   \<and> (\<forall>p h'. IMB_freezbuffloatImBuf p h = Inr h' \<longrightarrow> heap_flags_ok h')
   \<and> (\<forall>fuel p h'. imb_freerectImbuf_all (IMB_freeImBuf fuel) p h = Inr h'
         \<longrightarrow> heap_flags_ok h')
   \<and> (\<forall>p r h'. addzbufImBuf p h = Inr (r, h') \<longrightarrow> heap_flags_ok h')
   \<and> (\<forall>p r h'. addzbuffloatImBuf p h = Inr (r, h') \<longrightarrow> heap_flags_ok h')
   \<and> (\<forall>p r h'. imb_addencodedbufferImBuf p h = Inr (r, h') \<longrightarrow> heap_flags_ok h')
   \<and> (\<forall>p r h'. imb_enlargeencodedbufferImBuf p h = Inr (r, h') \<longrightarrow> heap_flags_ok h')
   \<and> (\<forall>fuel p chans r h'. imb_addrectfloatImBuf fuel p chans h = Inr (r, h')
         \<longrightarrow> heap_flags_ok h')
   \<and> (\<forall>p r h'. imb_addrectImBuf p h = Inr (r, h')
         \<and> (\<forall>a ib ib'. p = Some a \<and> ibufs h a = Some ib \<and> ibufs h' a = Some ib'
               \<longrightarrow> data (byte_buffer ib) = None \<or> data (byte_buffer ib') \<noteq> None)
         \<longrightarrow> heap_flags_ok h')
   \<and> (\<forall>p d h'. IMB_steal_byte_buffer p h = Inr (d, h')
         \<and> (\<forall>a ib. p = Some a \<and> ibufs h a = Some ib
               \<longrightarrow> data (byte_buffer ib) = None \<or> ownership (byte_buffer ib) = IB_TAKE_OWNERSHIP)
         \<longrightarrow> heap_flags_ok h')
   \<and> (\<forall>p d h'. IMB_steal_float_buffer p h = Inr (d, h')
         \<and> (\<forall>a ib. p = Some a \<and> ibufs h a = Some ib
               \<longrightarrow> data (float_buffer ib) = None
                   \<or> ownership (float_buffer ib) = IB_TAKE_OWNERSHIP)
         \<longrightarrow> heap_flags_ok h')
   \<and> (\<forall>p d h'. IMB_steal_encoded_buffer p h = Inr (d, h')
         \<and> (\<forall>a ib. p = Some a \<and> ibufs h a = Some ib
               \<longrightarrow> data (encoded_buffer ib) = None
                   \<or> ownership (encoded_buffer ib) = IB_TAKE_OWNERSHIP)
         \<longrightarrow> heap_flags_ok h')
   \<and> (\<forall>p h'. IMB_make_writable_byte_buffer p h = Inr h' \<longrightarrow> heap_flags_ok h')
   \<and> (\<forall>p h'. IMB_make_writable_float_buffer p h = Inr h' \<longrightarrow> heap_flags_ok h')
   \<and> (\<forall>p d own h'. IMB_assign_byte_buffer p d own h = Inr h' \<longrightarrow> heap_flags_ok h')
   \<and> (\<forall>p d own h'. IMB_assign_float_buffer p d own h = Inr h' \<longrightarrow> heap_flags_ok h')
   \<and> (\<forall>p d own h'. IMB_assign_z_buffer p d own h = Inr h' \<longrightarrow> heap_flags_ok h')
   \<and> (\<forall>p d own h'. IMB_assign_float_z_buffer p d own h = Inr h' \<longrightarrow> heap_flags_ok h')
   \<and> (\<forall>p d s h'. IMB_assign_shared_byte_buffer p d s h = Inr h' \<and> (d \<noteq> None \<longrightarrow> s \<noteq> None)
         \<longrightarrow> heap_flags_ok h')
   \<and> (\<forall>p d s h'. IMB_assign_shared_float_buffer p d s h = Inr h' \<and> (d \<noteq> None \<longrightarrow> s \<noteq> None)
         \<longrightarrow> heap_flags_ok h')
   \<and> (\<forall>p d s h'. IMB_assign_shared_float_z_buffer p d s h = Inr h'
         \<and> (d \<noteq> None \<longrightarrow> s \<noteq> None)
         \<longrightarrow> heap_flags_ok h')
   \<and> (\<forall>fuel p x y pl fl r h'. IMB_initImBuf fuel p x y pl fl h = Inr (r, h')
         \<longrightarrow> heap_flags_ok h')
   \<and> (\<forall>fuel x y pl fl q h'. IMB_allocImBuf fuel x y pl fl h = Inr (q, h')
         \<longrightarrow> heap_flags_ok h')
   \<and> (\<forall>fuel bd fd w ht chans q h'.
         IMB_allocFromBufferOwn fuel bd fd w ht chans h = Inr (q, h') \<longrightarrow> heap_flags_ok h')
   \<and> (\<forall>fuel p q h'. IMB_dupImBuf fuel p h = Inr (q, h') \<longrightarrow> heap_flags_ok h')
   \<and> (\<forall>fuel p q h'. IMB_makeSingleUser fuel p h = Inr (q, h') \<longrightarrow> heap_flags_ok h')"
proof -
  have c1: "\<forall>fuel p h'. IMB_freeImBuf fuel p h = Inr h' \<longrightarrow> heap_flags_ok h'"
    using IMB_freeImBuf_keeps_flags [OF ok] by blast
  have c2: "\<forall>p h'. IMB_refImBuf p h = Inr h' \<longrightarrow> heap_flags_ok h'"
    using IMB_refImBuf_keeps_flags [OF ok] by blast
  have c3: "\<forall>fuel p h'. imb_freemipmapImBuf (IMB_freeImBuf fuel) p h = Inr h'
      \<longrightarrow> heap_flags_ok h'"
    using imb_freemipmapImBuf_keeps_flags [OF ok] by blast
  have c4: "\<forall>fuel p h'. imb_freerectfloatImBuf (IMB_freeImBuf fuel) p h = Inr h'
         \<longrightarrow> heap_flags_ok h'"
    using imb_freerectfloatImBuf_keeps_flags [OF ok] by blast
  have c5: "\<forall>fuel p h'. imb_freerectImBuf (IMB_freeImBuf fuel) p h = Inr h'
      \<longrightarrow> heap_flags_ok h'"
    using imb_freerectImBuf_keeps_flags [OF ok] by blast
  have c6: "\<forall>p h'. IMB_freezbufImBuf p h = Inr h' \<longrightarrow> heap_flags_ok h'"
    using IMB_freezbufImBuf_keeps_flags [OF ok] by blast
  have c7: "\<forall>p h'. IMB_freezbuffloatImBuf p h = Inr h' \<longrightarrow> heap_flags_ok h'"
    using IMB_freezbuffloatImBuf_keeps_flags [OF ok] by blast
  have c8: "\<forall>fuel p h'. imb_freerectImbuf_all (IMB_freeImBuf fuel) p h = Inr h'
         \<longrightarrow> heap_flags_ok h'"
    using imb_freerectImbuf_all_keeps_flags [OF ok] by blast
  have c9: "\<forall>p r h'. addzbufImBuf p h = Inr (r, h') \<longrightarrow> heap_flags_ok h'"
    using addzbufImBuf_keeps_flags [OF ok] by blast
  have c10: "\<forall>p r h'. addzbuffloatImBuf p h = Inr (r, h') \<longrightarrow> heap_flags_ok h'"
    using addzbuffloatImBuf_keeps_flags [OF ok] by blast
  have c11: "\<forall>p r h'. imb_addencodedbufferImBuf p h = Inr (r, h') \<longrightarrow> heap_flags_ok h'"
    using imb_addencodedbufferImBuf_keeps_flags [OF ok] by blast
  have c12: "\<forall>p r h'. imb_enlargeencodedbufferImBuf p h = Inr (r, h') \<longrightarrow> heap_flags_ok h'"
    using imb_enlargeencodedbufferImBuf_keeps_flags [OF ok] by blast
  have c13: "\<forall>fuel p chans r h'. imb_addrectfloatImBuf fuel p chans h = Inr (r, h')
         \<longrightarrow> heap_flags_ok h'"
    using imb_addrectfloatImBuf_keeps_flags [OF ok] by blast
  have c14: "\<forall>p r h'. imb_addrectImBuf p h = Inr (r, h')
         \<and> (\<forall>a ib ib'. p = Some a \<and> ibufs h a = Some ib \<and> ibufs h' a = Some ib'
               \<longrightarrow> data (byte_buffer ib) = None \<or> data (byte_buffer ib') \<noteq> None)
         \<longrightarrow> heap_flags_ok h'"
  proof (intro allI impI, elim conjE)
    fix p r h'
    assume "imb_addrectImBuf p h = Inr (r, h')"
      and "\<forall>a ib ib'. p = Some a \<and> ibufs h a = Some ib \<and> ibufs h' a = Some ib'
               \<longrightarrow> data (byte_buffer ib) = None \<or> data (byte_buffer ib') \<noteq> None"
    with ok show "heap_flags_ok h'"
      by (rule imb_addrectImBuf_keeps_flags)
  qed
  have c15: "\<forall>p d h'. IMB_steal_byte_buffer p h = Inr (d, h')
         \<and> (\<forall>a ib. p = Some a \<and> ibufs h a = Some ib
               \<longrightarrow> data (byte_buffer ib) = None \<or> ownership (byte_buffer ib) = IB_TAKE_OWNERSHIP)
         \<longrightarrow> heap_flags_ok h'"
  proof (intro allI impI, elim conjE)
    fix p d h'
    assume "IMB_steal_byte_buffer p h = Inr (d, h')"
      and "\<forall>a ib. p = Some a \<and> ibufs h a = Some ib
               \<longrightarrow> data (byte_buffer ib) = None \<or> ownership (byte_buffer ib) = IB_TAKE_OWNERSHIP"
    with ok show "heap_flags_ok h'"
      by (rule IMB_steal_byte_buffer_keeps_flags)
  qed
  have c16: "\<forall>p d h'. IMB_steal_float_buffer p h = Inr (d, h')
         \<and> (\<forall>a ib. p = Some a \<and> ibufs h a = Some ib
               \<longrightarrow> data (float_buffer ib) = None
                   \<or> ownership (float_buffer ib) = IB_TAKE_OWNERSHIP)
         \<longrightarrow> heap_flags_ok h'"
  proof (intro allI impI, elim conjE)
    fix p d h'
    assume "IMB_steal_float_buffer p h = Inr (d, h')"
      and "\<forall>a ib. p = Some a \<and> ibufs h a = Some ib
               \<longrightarrow> data (float_buffer ib) = None
                   \<or> ownership (float_buffer ib) = IB_TAKE_OWNERSHIP"
    with ok show "heap_flags_ok h'"
      by (rule IMB_steal_float_buffer_keeps_flags)
  qed
  have c17: "\<forall>p d h'. IMB_steal_encoded_buffer p h = Inr (d, h')
         \<and> (\<forall>a ib. p = Some a \<and> ibufs h a = Some ib
               \<longrightarrow> data (encoded_buffer ib) = None
                   \<or> ownership (encoded_buffer ib) = IB_TAKE_OWNERSHIP)
         \<longrightarrow> heap_flags_ok h'"
  proof (intro allI impI, elim conjE)
    fix p d h'
    assume "IMB_steal_encoded_buffer p h = Inr (d, h')"
      and "\<forall>a ib. p = Some a \<and> ibufs h a = Some ib
               \<longrightarrow> data (encoded_buffer ib) = None
                   \<or> ownership (encoded_buffer ib) = IB_TAKE_OWNERSHIP"
    with ok show "heap_flags_ok h'"
      by (rule IMB_steal_encoded_buffer_keeps_flags)
  qed
  have mw: "make_writeable_slot sl p h = Inr h' \<Longrightarrow> heap_flags_ok h'" for sl p h'
    by (rule make_writeable_slot_keeps_flags [OF ok])
  have c18: "\<forall>p h'. IMB_make_writable_byte_buffer p h = Inr h' \<longrightarrow> heap_flags_ok h'"
    unfolding IMB_make_writable_byte_buffer_def using mw by blast
  have c19: "\<forall>p h'. IMB_make_writable_float_buffer p h = Inr h' \<longrightarrow> heap_flags_ok h'"
    unfolding IMB_make_writable_float_buffer_def using mw by blast
  have as: "assign_slot sl p d own h = Inr h' \<Longrightarrow> heap_flags_ok h'" for sl p d own h'
    by (rule assign_slot_keeps_flags [OF ok])
  have c20: "\<forall>p d own h'. IMB_assign_byte_buffer p d own h = Inr h' \<longrightarrow> heap_flags_ok h'"
    unfolding IMB_assign_byte_buffer_def using as by blast
  have c21: "\<forall>p d own h'. IMB_assign_float_buffer p d own h = Inr h' \<longrightarrow> heap_flags_ok h'"
    unfolding IMB_assign_float_buffer_def using as by blast
  have c22: "\<forall>p d own h'. IMB_assign_z_buffer p d own h = Inr h' \<longrightarrow> heap_flags_ok h'"
    unfolding IMB_assign_z_buffer_def using as by blast
  have c23: "\<forall>p d own h'. IMB_assign_float_z_buffer p d own h = Inr h' \<longrightarrow> heap_flags_ok h'"
    unfolding IMB_assign_float_z_buffer_def using as by blast
  have sh: "assign_shared_slot sl p d s h = Inr h' \<Longrightarrow> d \<noteq> None \<longrightarrow> s \<noteq> None
      \<Longrightarrow> heap_flags_ok h'" for sl p d s h'
    by (rule assign_shared_slot_keeps_flags [OF ok])
  have c24: "\<forall>p d s h'. IMB_assign_shared_byte_buffer p d s h = Inr h'
      \<and> (d \<noteq> None \<longrightarrow> s \<noteq> None) \<longrightarrow> heap_flags_ok h'"
    unfolding IMB_assign_shared_byte_buffer_def using sh by blast
  have c25: "\<forall>p d s h'. IMB_assign_shared_float_buffer p d s h = Inr h'
      \<and> (d \<noteq> None \<longrightarrow> s \<noteq> None) \<longrightarrow> heap_flags_ok h'"
    unfolding IMB_assign_shared_float_buffer_def using sh by blast
  have c26: "\<forall>p d s h'. IMB_assign_shared_float_z_buffer p d s h = Inr h'
         \<and> (d \<noteq> None \<longrightarrow> s \<noteq> None)
         \<longrightarrow> heap_flags_ok h'"
    unfolding IMB_assign_shared_float_z_buffer_def using sh by blast
  have c27: "\<forall>fuel p x y pl fl r h'. IMB_initImBuf fuel p x y pl fl h = Inr (r, h')
         \<longrightarrow> heap_flags_ok h'"
    using IMB_initImBuf_keeps_flags [OF ok] by blast
  have c28: "\<forall>fuel x y pl fl q h'. IMB_allocImBuf fuel x y pl fl h = Inr (q, h')
         \<longrightarrow> heap_flags_ok h'"
    using IMB_allocImBuf_keeps_flags [OF ok] by blast
  have c29: "\<forall>fuel bd fd w ht chans q h'.
         IMB_allocFromBufferOwn fuel bd fd w ht chans h = Inr (q, h') \<longrightarrow> heap_flags_ok h'"
    using IMB_allocFromBufferOwn_keeps_flags [OF ok] by blast
  have c30: "\<forall>fuel p q h'. IMB_dupImBuf fuel p h = Inr (q, h') \<longrightarrow> heap_flags_ok h'"
    using IMB_dupImBuf_keeps_flags [OF ok] by blast
  have c31: "\<forall>fuel p q h'. IMB_makeSingleUser fuel p h = Inr (q, h') \<longrightarrow> heap_flags_ok h'"
    using IMB_makeSingleUser_keeps_flags [OF ok] by blast
  show ?thesis
    by (intro conjI; fact)
qed

text \<open>
  The operations run on the two example heaps: a refused float allocation, a steal from a slot
  that owns its data, a granted byte allocation over a borrowed slot, the assignment of a
  shared block, and a duplication.
\<close>

theorem flag_invariant_preserved_witness:
  "heap_flags_ok heap_painted \<and> heap_flags_ok heap_lent
   \<and> (\<exists>h'. imb_addrectfloatImBuf 0 (Some 0) 4 heap_painted = Inr (False, h')
         \<and> heap_flags_ok h')
   \<and> (\<exists>h'. IMB_steal_byte_buffer (Some 0) heap_painted = Inr (Some 1, h')
         \<and> heap_flags_ok h')
   \<and> (\<exists>h'. imb_addrectImBuf (Some 0) heap_lent = Inr (True, h') \<and> heap_flags_ok h')
   \<and> (\<exists>h'. IMB_assign_shared_float_buffer (Some 0) (Some 2) (Some 3) heap_lent = Inr h'
         \<and> heap_flags_ok h')
   \<and> (\<exists>h'. IMB_dupImBuf 0 (Some 0) heap_lent = Inr (Some 4, h') \<and> heap_flags_ok h')"
proof -
  note p = flag_invariant_preserved [OF heap_painted_ok]
  note l = flag_invariant_preserved [OF heap_lent_ok]
  from p have p1: "\<forall>fuel p chans r h'. imb_addrectfloatImBuf fuel p chans heap_painted
      = Inr (r, h') \<longrightarrow> heap_flags_ok h'"
    by (elim conjE)
  from p have p2: "\<forall>p d h'. IMB_steal_byte_buffer p heap_painted = Inr (d, h')
         \<and> (\<forall>a ib. p = Some a \<and> ibufs heap_painted a = Some ib
               \<longrightarrow> data (byte_buffer ib) = None \<or> ownership (byte_buffer ib) = IB_TAKE_OWNERSHIP)
         \<longrightarrow> heap_flags_ok h'"
    by (elim conjE)
  from l have l1: "\<forall>p r h'. imb_addrectImBuf p heap_lent = Inr (r, h')
         \<and> (\<forall>a ib ib'. p = Some a \<and> ibufs heap_lent a = Some ib \<and> ibufs h' a = Some ib'
               \<longrightarrow> data (byte_buffer ib) = None \<or> data (byte_buffer ib') \<noteq> None)
         \<longrightarrow> heap_flags_ok h'"
    by (elim conjE)
  from l have l2: "\<forall>p d s h'. IMB_assign_shared_float_buffer p d s heap_lent = Inr h'
      \<and> (d \<noteq> None \<longrightarrow> s \<noteq> None) \<longrightarrow> heap_flags_ok h'"
    by (elim conjE)
  from addrectfloat_painted obtain h1 where
    r1: "imb_addrectfloatImBuf 0 (Some 0) 4 heap_painted = Inr (False, h1)" ..
  with p1 have o1: "heap_flags_ok h1" by blast
  from steal_byte_painted obtain h2 where
    r2: "IMB_steal_byte_buffer (Some 0) heap_painted = Inr (Some 1, h2)" ..
  have "\<forall>a ib. Some 0 = Some a \<and> ibufs heap_painted a = Some ib
      \<longrightarrow> data (byte_buffer ib) = None \<or> ownership (byte_buffer ib) = IB_TAKE_OWNERSHIP"
    by (simp add: heap_painted_def painted_image_def)
  with p2 r2 have o2: "heap_flags_ok h2" by blast
  from addrect_lent obtain h3 ib3 where
    r3: "imb_addrectImBuf (Some 0) heap_lent = Inr (True, h3)"
    and "ibufs h3 0 = Some ib3" and "data (byte_buffer ib3) = Some 4"
    by blast
  then have "\<forall>a ib ib'. Some 0 = Some a \<and> ibufs heap_lent a = Some ib \<and> ibufs h3 a = Some ib'
      \<longrightarrow> data (byte_buffer ib) = None \<or> data (byte_buffer ib') \<noteq> None"
    by auto
  with l1 r3 have o3: "heap_flags_ok h3" by blast
  from assign_shared_lent obtain h4 where
    r4: "IMB_assign_shared_float_buffer (Some 0) (Some 2) (Some 3) heap_lent = Inr h4" ..
  with l2 have o4: "heap_flags_ok h4" by blast
  from l have l3: "\<forall>fuel p q h'. IMB_dupImBuf fuel p heap_lent = Inr (q, h')
      \<longrightarrow> heap_flags_ok h'"
    by (elim conjE)
  from dup_lent obtain h5 where
    r5: "IMB_dupImBuf 0 (Some 0) heap_lent = Inr (Some 4, h5)" ..
  with l3 have o5: "heap_flags_ok h5" by blast
  from r1 o1 r2 o2 r3 o3 r4 o4 r5 o5 show ?thesis
    using heap_painted_ok heap_lent_ok by blast
qed

end
